theory Spec2Isabelle
  imports Complex_Main
begin

section \<open>The working tree\<close>

text \<open>
  \<^verbatim>\<open>SmartRecovery.ts\<close> looks a component up at four fixed places below the project
  directory (\<^verbatim>\<open>findActiveComponent\<close>, \<^verbatim>\<open>findUnusedComponent\<close>):
  \<^verbatim>\<open>client/src/components/ui/NAME.tsx\<close>, \<^verbatim>\<open>client/src/components/ui/NAME.ts\<close>,
  \<^verbatim>\<open>client/src/components/NAME.tsx\<close>, \<^verbatim>\<open>client/src/components/NAME.ts\<close>,
  each either as it is (active) or with the suffix \<^verbatim>\<open>.unused\<close> (removed, kept as backup).
  A component file is the directory, the component name, the extension and the suffix flag.
  The contents of the files of the tree (which \<^verbatim>\<open>removeImportStatements\<close> rewrites) are
  kept abstract in the field \<open>sources\<close>.

  Component names are taken to be plain file names, and neither they nor the project
  directory to contain the text \<^verbatim>\<open>.unused\<close>: the path of a restored file is
  \<^verbatim>\<open>componentPath.replace('.unused', '')\<close>, which then only drops the suffix.
\<close>

datatype compDir = UiDir | ComponentsDir

datatype compExt = Tsx | Ts

datatype compFile = CompFile compDir string compExt bool

record 'src tree =
  files :: "compFile set"
  sources :: 'src

fun setUnused :: "bool \<Rightarrow> compFile \<Rightarrow> compFile" where
  "setUnused u (CompFile d n e _) = CompFile d n e u"

definition possiblePaths :: "string \<Rightarrow> bool \<Rightarrow> compFile list" where
  "possiblePaths componentName u =
     [CompFile UiDir componentName Tsx u,
      CompFile UiDir componentName Ts u,
      CompFile ComponentsDir componentName Tsx u,
      CompFile ComponentsDir componentName Ts u]"

definition findUnusedComponent :: "'src tree \<Rightarrow> string \<Rightarrow> compFile option" where
  "findUnusedComponent t componentName =
     find (\<lambda>p. p \<in> files t) (possiblePaths componentName True)"

definition findActiveComponent :: "'src tree \<Rightarrow> string \<Rightarrow> compFile option" where
  "findActiveComponent t componentName =
     find (\<lambda>p. p \<in> files t) (possiblePaths componentName False)"

text \<open>\<^verbatim>\<open>fs.rename(src, dst)\<close> on a source that exists: the source disappears, the
  destination is created or overwritten.\<close>

definition rename :: "compFile \<Rightarrow> compFile \<Rightarrow> 'src tree \<Rightarrow> 'src tree" where
  "rename src dst t = t\<lparr>files := insert dst (files t - {src})\<rparr>"

section \<open>The environment of the recovery engine\<close>

text \<open>
  What the engine calls and does not implement itself:
  \<^item> \<open>renameError src dst\<close>: whether \<^verbatim>\<open>fs.rename\<close> throws on this pair, and with which
    message (\<open>None\<close>: the rename is done);
  \<^item> \<open>importRewrite cs t\<close>: the file contents \<^verbatim>\<open>removeImportStatements\<close> leaves behind
    for the components \<open>cs\<close> on the tree \<open>t\<close> (a textual rewriting of import lines; its
    search for the source files is taken to succeed, a file it cannot rewrite is skipped
    by the function itself);
  \<^item> \<open>testBuildOnly\<close>: \<^verbatim>\<open>npm run build\<close>, true when it exits normally;
  \<^item> \<open>captureMetrics\<close>: \<^verbatim>\<open>BundleMetricsTracker.captureMetrics\<close>, which rethrows a
    failed build (\<open>Inl\<close> the message).
  The validator is optional in \<^verbatim>\<open>performBinarySearchRecovery\<close>; when present it
  gives \<^verbatim>\<open>quickValidation\<close> (its success flag; it catches its own exceptions) and
  \<^verbatim>\<open>validateApplication\<close>. All probes are functions of the tree.
\<close>

record bundleMetrics =
  totalSize :: string
  bm_dependencyCount :: "int option"
  bm_componentCount :: "int option"

record validationResult =
  vr_success :: bool
  vr_jsErrors :: "string list option"
  vr_errors :: "string list"

record 'src validator =
  quickValidation :: "'src tree \<Rightarrow> bool"
  validateApplication :: "'src tree \<Rightarrow> validationResult"

record 'src env =
  renameError :: "compFile \<Rightarrow> compFile \<Rightarrow> string option"
  importRewrite :: "string list \<Rightarrow> 'src tree \<Rightarrow> 'src"
  testBuildOnly :: "'src tree \<Rightarrow> bool"
  captureMetrics :: "'src tree \<Rightarrow> string + bundleMetrics"

section \<open>Recovery configuration, steps and results\<close>

datatype recoveryStrategy = Conservative | Aggressive | Balanced

text \<open>
  \<^verbatim>\<open>maxIterations\<close> is a TypeScript \<^verbatim>\<open>number\<close>: a finite number (whole or not), an
  infinity or \<^verbatim>\<open>NaN\<close>; after the merge with a caller's partial configuration the field may
  also hold \<^verbatim>\<open>undefined\<close>. The loop compares its whole-number counter with it:
  \<^verbatim>\<open>currentIteration < config.maxIterations\<close> and \<^verbatim>\<open>currentIteration >= config.maxIterations\<close>
  are both false on \<^verbatim>\<open>NaN\<close> and on \<^verbatim>\<open>undefined\<close>.
\<close>

datatype jsNumber = Number real | PlusInfinity | MinusInfinity | NaN | Undefined

definition counterBelow :: "int \<Rightarrow> jsNumber \<Rightarrow> bool" where
  "counterBelow i b =
     (case b of Number r \<Rightarrow> of_int i < r | PlusInfinity \<Rightarrow> True | _ \<Rightarrow> False)"

definition counterReached :: "int \<Rightarrow> jsNumber \<Rightarrow> bool" where
  "counterReached i b =
     (case b of Number r \<Rightarrow> r \<le> of_int i | MinusInfinity \<Rightarrow> True | _ \<Rightarrow> False)"

text \<open>
  A key of the caller's \<^verbatim>\<open>Partial<RecoveryConfig>\<close> is absent, present with the value
  \<^verbatim>\<open>undefined\<close>, or present with a value. \<^verbatim>\<open>testEachIteration\<close> is only ever read as
  \<^verbatim>\<open>!config.testEachIteration\<close>, so \<^verbatim>\<open>undefined\<close> there is the flag \<open>False\<close>; the other two
  fields are never read.
\<close>

datatype 'a key = Absent | Undef | Val 'a

record recoveryConfig =
  maxIterations :: jsNumber
  testEachIteration :: bool
  preserveCritical :: "string list option"
  strategy :: "recoveryStrategy option"

record partialRecoveryConfig =
  p_maxIterations :: "jsNumber key"
  p_testEachIteration :: "bool key"
  p_preserveCritical :: "string list key"
  p_strategy :: "recoveryStrategy key"

definition defaultConfig :: recoveryConfig where
  "defaultConfig =
     \<lparr>maxIterations = Number 20, testEachIteration = True,
      preserveCritical = Some [''Button'', ''Card'', ''Dialog'', ''Toast''],
      strategy = Some Balanced\<rparr>"

text \<open>The object spread \<^verbatim>\<open>{ ...this.defaultConfig, ...config }\<close>: a key that is present
  overwrites the default, also with \<^verbatim>\<open>undefined\<close>.\<close>

definition mergeConfig :: "partialRecoveryConfig option \<Rightarrow> recoveryConfig" where
  "mergeConfig config =
     (case config of
        None \<Rightarrow> defaultConfig
      | Some c \<Rightarrow>
          \<lparr>maxIterations =
             (case p_maxIterations c of
                Absent \<Rightarrow> maxIterations defaultConfig | Undef \<Rightarrow> Undefined | Val b \<Rightarrow> b),
           testEachIteration =
             (case p_testEachIteration c of
                Absent \<Rightarrow> testEachIteration defaultConfig | Undef \<Rightarrow> False | Val b \<Rightarrow> b),
           preserveCritical =
             (case p_preserveCritical c of
                Absent \<Rightarrow> preserveCritical defaultConfig | Undef \<Rightarrow> None | Val l \<Rightarrow> Some l),
           strategy =
             (case p_strategy c of
                Absent \<Rightarrow> strategy defaultConfig | Undef \<Rightarrow> None | Val x \<Rightarrow> Some x)\<rparr>)"

datatype stepAction = Remove | Restore | Test

record recoveryStep =
  rs_iteration :: int
  rs_action :: stepAction
  rs_components :: "string list"
  rs_dependencies :: "string list"
  rs_success :: bool
  rs_errors :: "string list"

record recoveryResult =
  rr_success :: bool
  rr_minimalDependencies :: "string list"
  rr_minimalComponents :: "string list"
  rr_restoredComponents :: "string list"
  rr_totalIterations :: int
  rr_finalMetrics :: "bundleMetrics option"
  rr_recoverySteps :: "recoveryStep list"
  rr_errors :: "string list"
  rr_performance :: "validationResult option"

section \<open>Restoring and removing components\<close>

text \<open>One round of the loop of \<^verbatim>\<open>restoreComponents\<close>: the tree and the error list so
  far, and the component to restore.\<close>

definition restoreOne :: "'src env \<Rightarrow> 'src tree \<times> string list \<Rightarrow> string \<Rightarrow> 'src tree \<times> string list" where
  "restoreOne env acc component =
     (case acc of (t, errs) \<Rightarrow>
        (case findUnusedComponent t component of
           None \<Rightarrow> (t, errs @ [''Component file not found: '' @ component])
         | Some componentPath \<Rightarrow>
             (case renameError env componentPath (setUnused False componentPath) of
                Some msg \<Rightarrow> (t, errs @ [''Failed to restore '' @ component @ '': '' @ msg])
              | None \<Rightarrow> (rename componentPath (setUnused False componentPath) t, errs))))"

text \<open>\<^verbatim>\<open>restoreComponents\<close> returns \<^verbatim>\<open>{ success: errors.length === 0, errors }\<close>; the model
  returns the tree and the errors, and \<open>restoreSuccess\<close> is the flag.\<close>

definition restoreComponents :: "'src env \<Rightarrow> 'src tree \<Rightarrow> string list \<Rightarrow> 'src tree \<times> string list" where
  "restoreComponents env t components = foldl (restoreOne env) (t, []) components"

definition restoreSuccess :: "'src tree \<times> string list \<Rightarrow> bool" where
  "restoreSuccess r = (length (snd r) = 0)"

definition removeOne :: "'src env \<Rightarrow> 'src tree \<Rightarrow> string \<Rightarrow> 'src tree" where
  "removeOne env t component =
     (case findActiveComponent t component of
        None \<Rightarrow> t
      | Some componentPath \<Rightarrow>
          (case renameError env componentPath (setUnused True componentPath) of
             Some msg \<Rightarrow> t
           | None \<Rightarrow> rename componentPath (setUnused True componentPath) t))"

definition removeComponents :: "'src env \<Rightarrow> 'src tree \<Rightarrow> string list \<Rightarrow> 'src tree" where
  "removeComponents env t components =
     (let t1 = foldl (removeOne env) t components
      in t1\<lparr>sources := importRewrite env components t1\<rparr>)"

section \<open>The probe\<close>

definition testCurrentState ::
  "'src env \<Rightarrow> 'src validator option \<Rightarrow> recoveryConfig \<Rightarrow> 'src tree \<Rightarrow> bool" where
  "testCurrentState env v config t =
     (case v of
        None \<Rightarrow> testBuildOnly env t
      | Some val \<Rightarrow>
          if \<not> testEachIteration config then testBuildOnly env t
          else quickValidation val t)"

section \<open>The Minimize pass\<close>

definition minimizeOne ::
  "'src env \<Rightarrow> 'src validator option \<Rightarrow> recoveryConfig \<Rightarrow>
   'src tree \<times> string list \<Rightarrow> string \<Rightarrow> 'src tree \<times> string list" where
  "minimizeOne env v config acc component =
     (case acc of (t, necessaryComponents) \<Rightarrow>
        (let t1 = removeComponents env t [component]
         in if \<not> testCurrentState env v config t1
            then (fst (restoreComponents env t1 [component]), necessaryComponents @ [component])
            else (t1, necessaryComponents)))"

definition minimizeWorkingSet ::
  "'src env \<Rightarrow> 'src validator option \<Rightarrow> recoveryConfig \<Rightarrow> 'src tree \<Rightarrow> string list \<Rightarrow>
   'src tree \<times> string list" where
  "minimizeWorkingSet env v config t workingSet =
     foldl (minimizeOne env v config) (t, []) workingSet"

section \<open>The bisection loop\<close>

text \<open>
  The body of one iteration of the \<^verbatim>\<open>while\<close> loop of \<^verbatim>\<open>binarySearchOptimalSet\<close>, after
  the split: from the tree, the restored list and the test set to the new tree, the new
  restored list, the step that is pushed, and the number of calls of the probe the
  iteration itself made (0 or 1; the probes of the Minimize pass are not counted).
\<close>

definition bsIteration ::
  "'src env \<Rightarrow> 'src validator option \<Rightarrow> recoveryConfig \<Rightarrow> 'src tree \<Rightarrow> string list \<Rightarrow> int \<Rightarrow>
   string list \<Rightarrow> 'src tree \<times> string list \<times> recoveryStep \<times> nat" where
  "bsIteration env v config t restored currentIteration testSet =
     (let restoreResult = restoreComponents env t testSet;
          t1 = fst restoreResult;
          step = \<lparr>rs_iteration = currentIteration, rs_action = Restore,
                  rs_components = testSet, rs_dependencies = [],
                  rs_success = restoreSuccess restoreResult,
                  rs_errors = snd restoreResult\<rparr>
      in if restoreSuccess restoreResult then
           (let testResult = testCurrentState env v config t1;
                step1 = step\<lparr>rs_success := testResult\<rparr>
            in if testResult then
                 (let restored1 = restored @ testSet
                  in if length testSet > 1 then
                       (let minimizerResult = minimizeWorkingSet env v config t1 testSet;
                            actuallyNeeded = snd minimizerResult;
                            restored2 =
                              filter (\<lambda>comp. comp \<notin> set testSet \<or> comp \<in> set actuallyNeeded) restored1
                              @ actuallyNeeded;
                            unnecessary = filter (\<lambda>comp. comp \<notin> set actuallyNeeded) testSet;
                            t3 = (if length unnecessary > 0
                                  then removeComponents env (fst minimizerResult) unnecessary
                                  else fst minimizerResult)
                        in (t3, restored2, step1, 1))
                     else (t1, restored1, step1, 1))
               else (removeComponents env t1 testSet, restored, step1, 1))
         else (t1, restored, step, 0))"

text \<open>\<^verbatim>\<open>Math.ceil(workingSet.length / 2)\<close>.\<close>

definition halfSize :: "string list \<Rightarrow> nat" where
  "halfSize workingSet = (length workingSet + 1) div 2"

function bsLoop ::
  "'src env \<Rightarrow> 'src validator option \<Rightarrow> recoveryConfig \<Rightarrow> 'src tree \<Rightarrow> string list \<Rightarrow>
   string list \<Rightarrow> int \<Rightarrow> recoveryStep list \<Rightarrow> nat \<Rightarrow>
   'src tree \<times> string list \<times> recoveryStep list \<times> nat" where
  "bsLoop env v config t workingSet restored currentIteration steps probes =
     (if length workingSet > 0 \<and> counterBelow currentIteration (maxIterations config) then
        (case bsIteration env v config t restored (currentIteration + 1)
                (take (halfSize workingSet) workingSet) of
           (t', restored', step, p) \<Rightarrow>
             if counterReached (currentIteration + 1) (maxIterations config)
             then (t', restored', steps @ [step], probes + p)
             else bsLoop env v config t' (drop (halfSize workingSet) workingSet) restored'
                    (currentIteration + 1) (steps @ [step]) (probes + p))
      else (t, restored, steps, probes))"
  by pat_completeness auto
termination
  by (relation "measure (\<lambda>(env, v, config, t, workingSet, rest). length workingSet)")
     (auto simp: halfSize_def)

declare bsLoop.simps [simp del]

record 'src searchResult =
  sr_success :: bool
  sr_minimalDependencies :: "string list"
  sr_minimalComponents :: "string list"
  sr_restoredComponents :: "string list"
  sr_tree :: "'src tree"
  sr_steps :: "recoveryStep list"
  sr_outerProbes :: nat

text \<open>\<^verbatim>\<open>binarySearchOptimalSet\<close>: besides the object it returns, the result holds the tree it
  leaves, the step array it has pushed to, and the count of outer-loop probes.\<close>

definition binarySearchOptimalSet ::
  "'src env \<Rightarrow> 'src validator option \<Rightarrow> recoveryConfig \<Rightarrow> 'src tree \<Rightarrow> string list \<Rightarrow>
   string list \<Rightarrow> recoveryStep list \<Rightarrow> 'src searchResult" where
  "binarySearchOptimalSet env v config t eliminatedComponents eliminatedDependencies recoverySteps =
     (case bsLoop env v config t eliminatedComponents [] 0 recoverySteps 0 of
        (t', restored, steps, probes) \<Rightarrow>
          \<lparr>sr_success = testCurrentState env v config t',
           sr_minimalDependencies = eliminatedDependencies,
           sr_minimalComponents = restored,
           sr_restoredComponents = restored,
           sr_tree = t',
           sr_steps = steps,
           sr_outerProbes = probes\<rparr>)"

section \<open>Phase results and the entry point of the recovery engine\<close>

datatype optimizationPhase = Zulu | Alpha | Beta | Charlie

record phaseMetrics =
  pm_bundleSize :: string
  pm_dependencyCount :: int
  pm_componentCount :: int
  pm_buildTime :: int

record phaseChanges =
  ch_eliminatedComponents :: "string list"
  ch_eliminatedDependencies :: "string list"
  ch_restoredComponents :: "string list"

record phaseResult =
  pr_phase :: optimizationPhase
  pr_success :: bool
  pr_metrics :: phaseMetrics
  pr_changes :: phaseChanges
  pr_errors :: "string list"
  pr_performance :: "validationResult option"

text \<open>\<^verbatim>\<open>performBinarySearchRecovery\<close> returns its result; the model pairs it with the tree
  the call leaves behind.\<close>

definition performBinarySearchRecovery ::
  "'src env \<Rightarrow> 'src tree \<Rightarrow> phaseResult \<Rightarrow> 'src validator option \<Rightarrow>
   partialRecoveryConfig option \<Rightarrow> recoveryResult \<times> 'src tree" where
  "performBinarySearchRecovery env t failedPhase v config =
     (let recoveryConfig = mergeConfig config;
          recoverySteps = [];
          currentIteration = 0;
          changedComponents = ch_eliminatedComponents (pr_changes failedPhase);
          changedDependencies = ch_eliminatedDependencies (pr_changes failedPhase)
      in if length changedComponents = 0 \<and> length changedDependencies = 0 then
           (\<lparr>rr_success = False, rr_minimalDependencies = [], rr_minimalComponents = [],
             rr_restoredComponents = [], rr_totalIterations = 0, rr_finalMetrics = None,
             rr_recoverySteps = recoverySteps,
             rr_errors = [''No changes detected to recover from''],
             rr_performance = None\<rparr>, t)
         else
           (let result = binarySearchOptimalSet env v recoveryConfig t changedComponents
                           changedDependencies recoverySteps;
                t' = sr_tree result;
                performance =
                  (case v of
                     None \<Rightarrow> None
                   | Some val \<Rightarrow>
                       if sr_success result then Some (validateApplication val t') else None);
                captured =
                  (case performance of
                     None \<Rightarrow> Inr None
                   | Some perf \<Rightarrow>
                       if vr_success perf
                       then (case captureMetrics env t' of
                               Inl msg \<Rightarrow> Inl msg
                             | Inr m \<Rightarrow> Inr (Some m))
                       else Inr None)
            in case captured of
                 Inl msg \<Rightarrow>
                   (\<lparr>rr_success = False, rr_minimalDependencies = [], rr_minimalComponents = [],
                     rr_restoredComponents = [], rr_totalIterations = currentIteration,
                     rr_finalMetrics = None, rr_recoverySteps = sr_steps result,
                     rr_errors = [''Recovery failed: '' @ msg],
                     rr_performance = None\<rparr>, t')
               | Inr finalMetrics \<Rightarrow>
                   (\<lparr>rr_success = sr_success result,
                     rr_minimalDependencies = sr_minimalDependencies result,
                     rr_minimalComponents = sr_minimalComponents result,
                     rr_restoredComponents = sr_restoredComponents result,
                     rr_totalIterations = currentIteration,
                     rr_finalMetrics = finalMetrics, rr_recoverySteps = sr_steps result,
                     rr_errors = [], rr_performance = performance\<rparr>, t')))"

section \<open>The split schedule, in the words of the specification\<close>

text \<open>
  The specification's Split step: a working set of size \<open>n\<close> gives a test set of its
  first \<open>ceil(n/2)\<close> elements and a remainder of the rest, the next iteration splits the
  remainder, and this goes on while the working set is not empty, for at most \<open>k\<close>
  iterations. \<open>splitSchedule k ws\<close> is the list of the test sets in the order they are
  tested. It mentions neither the probe nor the tree.
\<close>

primrec splitSchedule :: "nat \<Rightarrow> string list \<Rightarrow> string list list" where
  "splitSchedule 0 workingSet = []"
| "splitSchedule (Suc k) workingSet =
     (if workingSet = [] then []
      else take (halfSize workingSet) workingSet
           # splitSchedule k (drop (halfSize workingSet) workingSet))"

text \<open>
  The number of iterations a bound allows from the counter value \<open>i\<close>: the whole numbers
  from \<open>i\<close> on that are below the bound. No bound (\<^verbatim>\<open>Infinity\<close>) allows as many
  iterations as the working set has elements, which is more than the splits need; \<^verbatim>\<open>NaN\<close>,
  \<^verbatim>\<open>undefined\<close> and \<^verbatim>\<open>-Infinity\<close> allow none.
\<close>

definition iterationBudget :: "jsNumber \<Rightarrow> int \<Rightarrow> string list \<Rightarrow> nat" where
  "iterationBudget b i workingSet =
     (case b of
        Number r \<Rightarrow> nat \<lceil>r - of_int i\<rceil>
      | PlusInfinity \<Rightarrow> length workingSet
      | _ \<Rightarrow> 0)"

text \<open>
  The state the iteration body accumulates over a given list of test sets, tried one after
  the other from the counter value \<open>i\<close>: the tree, the restored list, the step log and
  the count of outer probes.
\<close>

fun runIterations ::
  "'src env \<Rightarrow> 'src validator option \<Rightarrow> recoveryConfig \<Rightarrow>
   'src tree \<times> string list \<times> recoveryStep list \<times> nat \<Rightarrow> int \<Rightarrow> string list list \<Rightarrow>
   'src tree \<times> string list \<times> recoveryStep list \<times> nat" where
  "runIterations env v config st i [] = st"
| "runIterations env v config (t, restored, steps, probes) i (testSet # testSets) =
     (case bsIteration env v config t restored (i + 1) testSet of
        (t', restored', step, p) \<Rightarrow>
          runIterations env v config (t', restored', steps @ [step], probes + p) (i + 1) testSets)"

section \<open>A small project, for concrete runs\<close>

text \<open>
  Two components \<^verbatim>\<open>A\<close> and \<^verbatim>\<open>B\<close> under \<^verbatim>\<open>client/src/components/ui\<close>, both disabled by
  the elimination phase (\<^verbatim>\<open>A.tsx.unused\<close>, \<^verbatim>\<open>B.tsx.unused\<close>). The application builds and
  serves its home route exactly when \<^verbatim>\<open>A.tsx\<close> is in place. No rename fails, no import
  line mentions a component, and the metrics capture succeeds.
\<close>

definition probeA :: "unit tree \<Rightarrow> bool" where
  "probeA t = (CompFile UiDir ''A'' Tsx False \<in> files t)"

definition exampleEnv :: "unit env" where
  "exampleEnv =
     \<lparr>renameError = (\<lambda>src dst. None),
      importRewrite = (\<lambda>cs t. sources t),
      testBuildOnly = probeA,
      captureMetrics = (\<lambda>t. Inr \<lparr>totalSize = ''100 KB'', bm_dependencyCount = None,
                                  bm_componentCount = None\<rparr>)\<rparr>"

definition exampleValidator :: "unit validator" where
  "exampleValidator =
     \<lparr>quickValidation = probeA,
      validateApplication = (\<lambda>t. \<lparr>vr_success = probeA t, vr_jsErrors = None, vr_errors = []\<rparr>)\<rparr>"

definition exampleTree :: "unit tree" where
  "exampleTree =
     \<lparr>files = {CompFile UiDir ''A'' Tsx True, CompFile UiDir ''B'' Tsx True}, sources = ()\<rparr>"

definition failedAlpha :: "string list \<Rightarrow> phaseResult" where
  "failedAlpha cs =
     \<lparr>pr_phase = Alpha, pr_success = False,
      pr_metrics = \<lparr>pm_bundleSize = ''419 KB'', pm_dependencyCount = 0, pm_componentCount = 0,
                    pm_buildTime = 0\<rparr>,
      pr_changes = \<lparr>ch_eliminatedComponents = cs, ch_eliminatedDependencies = [],
                    ch_restoredComponents = []\<rparr>,
      pr_errors = [''Home route failed''], pr_performance = None\<rparr>"

text \<open>The same project with both components in place.\<close>

definition exampleRestoredTree :: "unit tree" where
  "exampleRestoredTree =
     \<lparr>files = {CompFile UiDir ''A'' Tsx False, CompFile UiDir ''B'' Tsx False}, sources = ()\<rparr>"

text \<open>A caller's configuration that allows a single iteration.\<close>

definition oneIteration :: partialRecoveryConfig where
  "oneIteration = \<lparr>p_maxIterations = Val (Number 1), p_testEachIteration = Absent,
                    p_preserveCritical = Absent, p_strategy = Absent\<rparr>"

text \<open>Configurations with a bound that is not a whole number, and with the bound 0.\<close>

definition fractionalBound :: partialRecoveryConfig where
  "fractionalBound = \<lparr>p_maxIterations = Val (Number (3 / 2)), p_testEachIteration = Absent,
                       p_preserveCritical = Absent, p_strategy = Absent\<rparr>"

definition zeroBound :: partialRecoveryConfig where
  "zeroBound = \<lparr>p_maxIterations = Val (Number 0), p_testEachIteration = Absent,
                 p_preserveCritical = Absent, p_strategy = Absent\<rparr>"

text \<open>
  A project of six disabled components whose probe is not monotone: the application works
  with \<^verbatim>\<open>X\<close> alone, or with \<^verbatim>\<open>Y\<close> and \<^verbatim>\<open>Z\<close> together, but not with \<^verbatim>\<open>X\<close> and only one of
  \<^verbatim>\<open>Y\<close>, \<^verbatim>\<open>Z\<close>, and never with \<^verbatim>\<open>U\<close>.
\<close>

definition active :: "string \<Rightarrow> unit tree \<Rightarrow> bool" where
  "active name t = (CompFile UiDir name Tsx False \<in> files t)"

definition probeXYZ :: "unit tree \<Rightarrow> bool" where
  "probeXYZ t =
     (\<not> active ''U'' t \<and>
      ((active ''X'' t \<and> \<not> active ''Y'' t \<and> \<not> active ''Z'' t) \<or> (active ''Y'' t \<and> active ''Z'' t)))"

definition envXYZ :: "unit env" where
  "envXYZ = exampleEnv\<lparr>testBuildOnly := probeXYZ\<rparr>"

definition validatorXYZ :: "unit validator" where
  "validatorXYZ =
     \<lparr>quickValidation = probeXYZ,
      validateApplication = (\<lambda>t. \<lparr>vr_success = probeXYZ t, vr_jsErrors = None, vr_errors = []\<rparr>)\<rparr>"

definition treeXYZ :: "unit tree" where
  "treeXYZ =
     \<lparr>files = {CompFile UiDir ''X'' Tsx True, CompFile UiDir ''W'' Tsx True,
               CompFile UiDir ''V'' Tsx True, CompFile UiDir ''Y'' Tsx True,
               CompFile UiDir ''Z'' Tsx True, CompFile UiDir ''U'' Tsx True},
      sources = ()\<rparr>"

section \<open>The phase orchestrator\<close>

text \<open>
  \<^verbatim>\<open>SmartBundleOptimizer.optimize\<close> runs the phases of \<^verbatim>\<open>config.phases\<close> in a
  \<^verbatim>\<open>for ... of\<close> loop over the array, which it may extend while it iterates; the array
  iterator reads the length at every step, so the loop is an index into the current list.
  The work of the phases that is not control flow is taken from the environment:
  \<^item> \<open>zuluPhase\<close>: the baseline capture, which may throw (\<open>Inl\<close>), else the metrics, the
    validation record and the tree;
  \<^item> \<open>alphaBody\<close>: \<^verbatim>\<open>executeAlphaPhase\<close> after its check for the baseline (it catches its own
    exceptions and always returns a result);
  \<^item> \<open>betaBody\<close>: \<^verbatim>\<open>executeBetaPhase\<close> after its check of the alpha result (likewise);
  \<^item> \<open>elapsed\<close>: the build time a phase reports.
\<close>

datatype optimizationMode = SmartMode | AggressiveMode | RecoveryMode | NuclearMode

record smartOptimizationConfig =
  cfg_mode :: optimizationMode
  cfg_phases :: "optimizationPhase list"
  cfg_autoTest :: bool
  cfg_visualize :: bool
  cfg_compare :: bool

record 'src orchestratorEnv =
  recoveryEnv :: "'src env"
  orchValidator :: "'src validator"
  zuluPhase :: "smartOptimizationConfig \<Rightarrow> 'src tree \<Rightarrow>
                string + (phaseMetrics \<times> validationResult option \<times> 'src tree)"
  alphaBody :: "smartOptimizationConfig \<Rightarrow> phaseResult list \<Rightarrow> 'src tree \<Rightarrow> phaseResult \<times> 'src tree"
  betaBody :: "smartOptimizationConfig \<Rightarrow> phaseResult list \<Rightarrow> 'src tree \<Rightarrow> phaseResult \<times> 'src tree"
  elapsed :: int

definition noChanges :: phaseChanges where
  "noChanges = \<lparr>ch_eliminatedComponents = [], ch_eliminatedDependencies = [],
                ch_restoredComponents = []\<rparr>"

text \<open>\<^verbatim>\<open>previousPhases.find(p => p.phase === ...)\<close>.\<close>

definition findPhase :: "optimizationPhase \<Rightarrow> phaseResult list \<Rightarrow> phaseResult option" where
  "findPhase ph previousPhases = find (\<lambda>p. pr_phase p = ph) previousPhases"

definition executeZuluPhase ::
  "'src orchestratorEnv \<Rightarrow> 'src tree \<Rightarrow> smartOptimizationConfig \<Rightarrow>
   string + (phaseResult \<times> 'src tree)" where
  "executeZuluPhase oenv t config =
     (case zuluPhase oenv config t of
        Inl msg \<Rightarrow> Inl msg
      | Inr (m, perf, t') \<Rightarrow>
          Inr (\<lparr>pr_phase = Zulu, pr_success = True, pr_metrics = m, pr_changes = noChanges,
                pr_errors = [], pr_performance = perf\<rparr>, t'))"

definition executeAlphaPhase ::
  "'src orchestratorEnv \<Rightarrow> 'src tree \<Rightarrow> smartOptimizationConfig \<Rightarrow> phaseResult list \<Rightarrow>
   string + (phaseResult \<times> 'src tree)" where
  "executeAlphaPhase oenv t config previousPhases =
     (case findPhase Zulu previousPhases of
        None \<Rightarrow> Inl ''ALPHA phase requires ZULU baseline''
      | Some zuluResult \<Rightarrow>
          (case alphaBody oenv config previousPhases t of
             (r, t') \<Rightarrow> Inr (r\<lparr>pr_phase := Alpha\<rparr>, t')))"

definition zeroMetrics :: phaseMetrics where
  "zeroMetrics = \<lparr>pm_bundleSize = ''0'', pm_dependencyCount = 0, pm_componentCount = 0,
                  pm_buildTime = 0\<rparr>"

text \<open>The result \<^verbatim>\<open>executeBetaPhase\<close> returns without doing anything, with the metrics
  \<^verbatim>\<open>alphaResult?.metrics || { bundleSize: '0', ... }\<close>.\<close>

definition betaSkipped :: "phaseMetrics \<Rightarrow> phaseResult" where
  "betaSkipped m =
     \<lparr>pr_phase = Beta, pr_success = False, pr_metrics = m, pr_changes = noChanges,
      pr_errors = [''BETA skipped: ALPHA phase failed''], pr_performance = None\<rparr>"

definition executeBetaPhase ::
  "'src orchestratorEnv \<Rightarrow> 'src tree \<Rightarrow> smartOptimizationConfig \<Rightarrow> phaseResult list \<Rightarrow>
   string + (phaseResult \<times> 'src tree)" where
  "executeBetaPhase oenv t config previousPhases =
     (case findPhase Alpha previousPhases of
        None \<Rightarrow> Inr (betaSkipped zeroMetrics, t)
      | Some alphaResult \<Rightarrow>
          if \<not> pr_success alphaResult then Inr (betaSkipped (pr_metrics alphaResult), t)
          else
            (case betaBody oenv config previousPhases t of
               (r, t') \<Rightarrow> Inr (r\<lparr>pr_phase := Beta\<rparr>, t')))"

text \<open>The configuration \<^verbatim>\<open>executeCharliePhase\<close> passes to the recovery engine.\<close>

definition charlieRecoveryConfig :: partialRecoveryConfig where
  "charlieRecoveryConfig =
     \<lparr>p_maxIterations = Val (Number 20), p_testEachIteration = Val True,
      p_preserveCritical = Val [''App'', ''Router'', ''QueryClient''],
      p_strategy = Val Aggressive\<rparr>"

text \<open>
  \<^verbatim>\<open>executeCharliePhase\<close>. Without a failed alpha result it reads the metrics of the last
  previous phase, \<^verbatim>\<open>previousPhases[previousPhases.length - 1].metrics\<close>, which throws a
  \<^verbatim>\<open>TypeError\<close> on an empty list. Otherwise it calls the recovery engine, which returns a
  result on every path of the model, so the \<^verbatim>\<open>catch\<close> of the phase has no branch here.
\<close>

definition charlieNotNeeded :: "phaseResult list \<Rightarrow> 'src tree \<Rightarrow> string + (phaseResult \<times> 'src tree)" where
  "charlieNotNeeded previousPhases t =
     (if previousPhases = [] then Inl ''TypeError''
      else Inr (\<lparr>pr_phase = Charlie, pr_success = True,
                 pr_metrics = pr_metrics (last previousPhases),
                 pr_changes = noChanges, pr_errors = [], pr_performance = None\<rparr>, t))"

definition executeCharliePhase ::
  "'src orchestratorEnv \<Rightarrow> 'src tree \<Rightarrow> smartOptimizationConfig \<Rightarrow> phaseResult list \<Rightarrow>
   string + (phaseResult \<times> 'src tree)" where
  "executeCharliePhase oenv t config previousPhases =
     (case findPhase Alpha previousPhases of
        None \<Rightarrow> charlieNotNeeded previousPhases t
      | Some alphaPhase \<Rightarrow>
          if pr_success alphaPhase then charlieNotNeeded previousPhases t
          else
           (case performBinarySearchRecovery (recoveryEnv oenv) t alphaPhase
                   (Some (orchValidator oenv)) (Some charlieRecoveryConfig) of
              (recoveryResult, t') \<Rightarrow>
                Inr (\<lparr>pr_phase = Charlie, pr_success = rr_success recoveryResult,
                      pr_metrics =
                        \<lparr>pm_bundleSize =
                           (case rr_finalMetrics recoveryResult of
                              None \<Rightarrow> ''0''
                            | Some m \<Rightarrow> if totalSize m = [] then ''0'' else totalSize m),
                         pm_dependencyCount = int (length (rr_minimalDependencies recoveryResult)),
                         pm_componentCount = int (length (rr_minimalComponents recoveryResult)),
                         pm_buildTime = elapsed oenv\<rparr>,
                      pr_changes =
                        \<lparr>ch_eliminatedComponents = [], ch_eliminatedDependencies = [],
                         ch_restoredComponents = rr_restoredComponents recoveryResult\<rparr>,
                      pr_errors = rr_errors recoveryResult,
                      pr_performance = rr_performance recoveryResult\<rparr>, t')))"

definition executePhase ::
  "'src orchestratorEnv \<Rightarrow> optimizationPhase \<Rightarrow> 'src tree \<Rightarrow> smartOptimizationConfig \<Rightarrow>
   phaseResult list \<Rightarrow> string + (phaseResult \<times> 'src tree)" where
  "executePhase oenv ph t config results =
     (case ph of
        Zulu \<Rightarrow> executeZuluPhase oenv t config
      | Alpha \<Rightarrow> executeAlphaPhase oenv t config results
      | Beta \<Rightarrow> executeBetaPhase oenv t config results
      | Charlie \<Rightarrow> executeCharliePhase oenv t config results)"

text \<open>
  The loop of \<^verbatim>\<open>optimize\<close>. The state is the configuration (whose phase list grows), the
  index of the next phase, the results so far and the tree. It ends with the message of an
  exception that reached the outer \<^verbatim>\<open>catch\<close>, if any, and the final state.
\<close>

definition alphaFailed :: "phaseResult list \<Rightarrow> bool" where
  "alphaFailed results = list_ex (\<lambda>r. pr_phase r = Alpha \<and> \<not> pr_success r) results"

function optimizeLoop ::
  "'src orchestratorEnv \<Rightarrow> smartOptimizationConfig \<Rightarrow> nat \<Rightarrow> phaseResult list \<Rightarrow> 'src tree \<Rightarrow>
   string option \<times> smartOptimizationConfig \<times> phaseResult list \<times> 'src tree" where
  "optimizeLoop oenv config i results t =
     (if i < length (cfg_phases config) then
        (case executePhase oenv (cfg_phases config ! i) t config results of
           Inl msg \<Rightarrow> (Some msg, config, results, t)
         | Inr (phaseResult, t') \<Rightarrow>
             if cfg_phases config ! i = Alpha \<and> \<not> pr_success phaseResult
                \<and> Charlie \<notin> set (cfg_phases config)
             then optimizeLoop oenv (config\<lparr>cfg_phases := cfg_phases config @ [Charlie]\<rparr>)
                    (i + 1) (results @ [phaseResult]) t'
             else if cfg_phases config ! i = Beta \<and> alphaFailed (results @ [phaseResult])
             then optimizeLoop oenv config (i + 1) (results @ [phaseResult]) t'
             else if \<not> pr_success phaseResult \<and> cfg_mode config \<noteq> RecoveryMode
                     \<and> cfg_phases config ! i \<noteq> Alpha
             then (None, config, results @ [phaseResult], t')
             else optimizeLoop oenv config (i + 1) (results @ [phaseResult]) t')
      else (None, config, results, t))"
  by pat_completeness auto
termination
  by (relation "measure (\<lambda>(oenv, config, i, results, t).
        length (cfg_phases config) + (if Charlie \<in> set (cfg_phases config) then 0 else 1) - i)")
     auto

declare optimizeLoop.simps [simp del]

text \<open>
  \<^verbatim>\<open>optimize\<close>: the loop from the first phase, then the final report, which needs a baseline
  result and a last result (\<^verbatim>\<open>Missing phase data for report generation\<close> otherwise). An
  exception gives the failure result, which still carries the results so far. The overall
  success is that of every phase.
\<close>

record 'src optimizationOutcome =
  oo_success :: bool
  oo_phases :: "phaseResult list"
  oo_failure :: "string option"
  oo_configPhases :: "optimizationPhase list"
  oo_tree :: "'src tree"

definition optimize ::
  "'src orchestratorEnv \<Rightarrow> 'src tree \<Rightarrow> smartOptimizationConfig \<Rightarrow> 'src optimizationOutcome" where
  "optimize oenv t config =
     (case optimizeLoop oenv config 0 [] t of
        (thrown, config', results, t') \<Rightarrow>
          (case thrown of
             Some msg \<Rightarrow>
               \<lparr>oo_success = False, oo_phases = results,
                oo_failure = Some (''Optimization failed: '' @ msg),
                oo_configPhases = cfg_phases config', oo_tree = t'\<rparr>
           | None \<Rightarrow>
               if findPhase Zulu results = None \<or> results = [] then
                 \<lparr>oo_success = False, oo_phases = results,
                  oo_failure = Some ''Optimization failed: Missing phase data for report generation'',
                  oo_configPhases = cfg_phases config', oo_tree = t'\<rparr>
               else
                 \<lparr>oo_success = list_all pr_success results, oo_phases = results,
                  oo_failure = None,
                  oo_configPhases = cfg_phases config', oo_tree = t'\<rparr>))"

text \<open>
  An orchestrator over the small project: the baseline succeeds, the elimination disables
  \<^verbatim>\<open>A\<close> and \<^verbatim>\<open>B\<close> and reports failure, the refinement (were it to run) would succeed.
\<close>

definition exampleMetrics :: phaseMetrics where
  "exampleMetrics = \<lparr>pm_bundleSize = ''419 KB'', pm_dependencyCount = 0, pm_componentCount = 0,
                     pm_buildTime = 0\<rparr>"

definition passedPhase :: "optimizationPhase \<Rightarrow> phaseResult" where
  "passedPhase ph =
     \<lparr>pr_phase = ph, pr_success = True, pr_metrics = exampleMetrics, pr_changes = noChanges,
      pr_errors = [], pr_performance = None\<rparr>"

definition exampleOrchestrator :: "unit orchestratorEnv" where
  "exampleOrchestrator =
     \<lparr>recoveryEnv = exampleEnv, orchValidator = exampleValidator,
      zuluPhase = (\<lambda>config t. Inr (exampleMetrics, None, t)),
      alphaBody = (\<lambda>config previous t. (failedAlpha [''A'', ''B''], exampleTree)),
      betaBody = (\<lambda>config previous t. (passedPhase Beta, t)),
      elapsed = 0\<rparr>"

definition exampleConfig :: smartOptimizationConfig where
  "exampleConfig =
     \<lparr>cfg_mode = SmartMode, cfg_phases = [Zulu, Alpha, Beta], cfg_autoTest = True,
      cfg_visualize = False, cfg_compare = False\<rparr>"

text \<open>
  An orchestrator whose phase list names the elimination twice. The first elimination
  finds nothing to remove and succeeds; the second disables \<^verbatim>\<open>A\<close> and \<^verbatim>\<open>B\<close> and reports
  failure. The refinement, when its body runs, removes one dependency and reports success.
\<close>

definition refinedBeta :: phaseResult where
  "refinedBeta =
     \<lparr>pr_phase = Beta, pr_success = True, pr_metrics = exampleMetrics,
      pr_changes = \<lparr>ch_eliminatedComponents = [], ch_eliminatedDependencies = [''lodash''],
                    ch_restoredComponents = []\<rparr>,
      pr_errors = [], pr_performance = None\<rparr>"

definition repeatedAlphaOrchestrator :: "unit orchestratorEnv" where
  "repeatedAlphaOrchestrator =
     \<lparr>recoveryEnv = exampleEnv, orchValidator = exampleValidator,
      zuluPhase = (\<lambda>config t. Inr (exampleMetrics, None, t)),
      alphaBody = (\<lambda>config previous t.
         if findPhase Alpha previous = None then (passedPhase Alpha, t)
         else (failedAlpha [''A'', ''B''], exampleTree)),
      betaBody = (\<lambda>config previous t. (refinedBeta, t)),
      elapsed = 0\<rparr>"

definition repeatedAlphaConfig :: smartOptimizationConfig where
  "repeatedAlphaConfig =
     \<lparr>cfg_mode = SmartMode, cfg_phases = [Zulu, Alpha, Alpha, Beta], cfg_autoTest = True,
      cfg_visualize = False, cfg_compare = False\<rparr>"

section \<open>JavaScript maps and sets\<close>

text \<open>
  A \<^verbatim>\<open>Map\<close> iterates in insertion order and \<^verbatim>\<open>set\<close> on a key that is present replaces
  the value in place: an association list with \<open>mapSet\<close>; \<^verbatim>\<open>get\<close> is \<open>map_of\<close> and
  \<^verbatim>\<open>has\<close> is membership of the keys. A \<^verbatim>\<open>Set\<close> is a list without repetition, in
  insertion order, with \<open>setAdd\<close>.
\<close>

type_synonym ('k, 'v) jsMap = "('k \<times> 'v) list"

fun mapSet :: "'k \<Rightarrow> 'v \<Rightarrow> ('k, 'v) jsMap \<Rightarrow> ('k, 'v) jsMap" where
  "mapSet k v [] = [(k, v)]"
| "mapSet k v ((k', v') # m) = (if k' = k then (k, v) # m else (k', v') # mapSet k v m)"

definition mapHas :: "('k, 'v) jsMap \<Rightarrow> 'k \<Rightarrow> bool" where
  "mapHas m k = (k \<in> fst ` set m)"

definition setAdd :: "'a \<Rightarrow> 'a list \<Rightarrow> 'a list" where
  "setAdd x xs = (if x \<in> set xs then xs else xs @ [x])"

section \<open>The usage classifier\<close>

record componentImportInfo =
  ci_componentName :: string
  ci_packageName :: string
  ci_filePath :: string
  ci_importStatement :: string
  ci_isUIComponent :: bool

record componentRenderInfo =
  cr_componentName :: string
  cr_renderCount :: int
  cr_filePaths :: "string list"
  cr_jsxUsages :: "string list"

text \<open>One round of the loop of \<^verbatim>\<open>identifyBasicEliminationCandidates\<close> over the entries of
  the map of imported components.\<close>

definition candidateStep ::
  "(string, componentRenderInfo) jsMap \<Rightarrow> string list \<Rightarrow> string \<times> componentImportInfo \<Rightarrow>
   string list" where
  "candidateStep rendered candidates entry =
     (case entry of (componentName, importInfo) \<Rightarrow>
        (case map_of rendered componentName of
           None \<Rightarrow> candidates @ [componentName]
         | Some renderInfo \<Rightarrow>
             if cr_renderCount renderInfo \<le> 1 \<and> length (cr_filePaths renderInfo) \<le> 1
             then candidates @ [componentName]
             else candidates))"

definition identifyBasicEliminationCandidates ::
  "(string, componentImportInfo) jsMap \<Rightarrow> (string, componentRenderInfo) jsMap \<Rightarrow> string list" where
  "identifyBasicEliminationCandidates imported rendered =
     foldl (candidateStep rendered) [] imported"

text \<open>
  \<^verbatim>\<open>scanJSXUsage\<close>, from the matches of its pattern: for every file that could be read, in
  the order of the scan, the file path and the component names of the tags matched, in the
  order of the text (the first group of each match; the match itself is \<^verbatim>\<open><\<close> and the name).
\<close>

definition htmlTags :: "string list" where
  "htmlTags = [''SVG'', ''G'', ''Path'', ''Circle'', ''Rect'', ''Line'', ''Text'', ''Image'']"

definition recordRender ::
  "string \<Rightarrow> (string, componentRenderInfo) jsMap \<Rightarrow> string \<Rightarrow> (string, componentRenderInfo) jsMap" where
  "recordRender filePath renderedComponents componentName =
     (if componentName \<in> set htmlTags then renderedComponents
      else
        (case map_of renderedComponents componentName of
           Some info \<Rightarrow>
             mapSet componentName
               (info\<lparr>cr_renderCount := cr_renderCount info + 1,
                     cr_filePaths := (if filePath \<in> set (cr_filePaths info) then cr_filePaths info
                                      else cr_filePaths info @ [filePath]),
                     cr_jsxUsages := cr_jsxUsages info @ [CHR ''<'' # componentName]\<rparr>)
               renderedComponents
         | None \<Rightarrow>
             mapSet componentName
               \<lparr>cr_componentName = componentName, cr_renderCount = 1,
                cr_filePaths = [filePath], cr_jsxUsages = [CHR ''<'' # componentName]\<rparr>
               renderedComponents))"

definition scanJSXUsage :: "(string \<times> string list) list \<Rightarrow> (string, componentRenderInfo) jsMap" where
  "scanJSXUsage sourceFiles =
     foldl (\<lambda>renderedComponents (filePath, tags). foldl (recordRender filePath) renderedComponents tags)
       [] sourceFiles"

text \<open>A map of imports and a scan for concrete runs: \<^verbatim>\<open>Badge\<close> is never rendered,
  \<^verbatim>\<open>Card\<close> once, \<^verbatim>\<open>Button\<close> twice in one file, \<^verbatim>\<open>Tabs\<close> once in each of two files.\<close>

definition importOf :: "string \<Rightarrow> string \<times> componentImportInfo" where
  "importOf n =
     (n, \<lparr>ci_componentName = n, ci_packageName = ''@/components/ui/'' @ n,
          ci_filePath = ''client/src/App.tsx'', ci_importStatement = ''import'',
          ci_isUIComponent = True\<rparr>)"

definition exampleImports :: "(string, componentImportInfo) jsMap" where
  "exampleImports = [importOf ''Badge'', importOf ''Card'', importOf ''Button'', importOf ''Tabs'']"

definition exampleRendered :: "(string, componentRenderInfo) jsMap" where
  "exampleRendered =
     scanJSXUsage [(''client/src/App.tsx'', [''Card'', ''Button'', ''Button'', ''Tabs'']),
                   (''client/src/Home.tsx'', [''Tabs''])]"

text \<open>How often and where a tag of a component occurs in the scanned files.\<close>

definition occurrences :: "(string \<times> string list) list \<Rightarrow> string \<Rightarrow> nat" where
  "occurrences sourceFiles c = sum_list (map (\<lambda>(filePath, tags). count_list tags c) sourceFiles)"

definition filesRendering :: "(string \<times> string list) list \<Rightarrow> string \<Rightarrow> string set" where
  "filesRendering sourceFiles c = {filePath. \<exists>tags. (filePath, tags) \<in> set sourceFiles \<and> c \<in> set tags}"

section \<open>The nuclear elimination engine: parsed modules\<close>

text \<open>
  \<^verbatim>\<open>NuclearOptimizer.extractExports\<close> parses a component with Babel and visits the export
  declarations of the tree. The parser is not part of the repository: a module is the list
  of its top-level statements as Babel gives them, reduced to what the visitors read.
  An exported variable declaration has one declarator per variable, whose target is an
  identifier or a destructuring pattern (of which only the bound names are kept). Any other
  exported declaration (an enum, an interface, a type alias) is kept with the name it
  declares.

  Export declarations also occur below the top level, in the block of a TypeScript
  \<^verbatim>\<open>namespace\<close> or \<^verbatim>\<open>declare module\<close>, and the traversal visits them there too.
  \<open>TSModuleDeclaration isExported name body\<close> is such a block with its statements;
  \<^verbatim>\<open>export namespace N { ... }\<close>, for Babel an \<^verbatim>\<open>ExportNamedDeclaration\<close> whose declaration
  is the block and which has no specifier, is the block with \<open>isExported\<close> true.
\<close>

datatype lval = Identifier string | ObjectPattern "string list" | ArrayPattern "string list"

datatype declarationNode =
    FunctionDeclaration "string option"
  | VariableDeclaration "lval list"
  | ClassDeclaration string
  | OtherDeclaration string

datatype exported = ExportedIdentifier string | ExportedStringLiteral string

datatype specifier =
    ExportSpecifier string exported
  | ExportNamespaceSpecifier string

datatype statement =
    ExportNamedDeclaration "declarationNode option" "specifier list"
  | ExportDefaultDeclaration
  | ExportAllDeclaration string
  | TSModuleDeclaration bool string "statement list"
  | OtherStatement

definition addDeclarator :: "string list \<Rightarrow> lval \<Rightarrow> string list" where
  "addDeclarator exports declarator =
     (case declarator of Identifier name \<Rightarrow> setAdd name exports | _ \<Rightarrow> exports)"

definition addSpecifier :: "string list \<Rightarrow> specifier \<Rightarrow> string list" where
  "addSpecifier exports spec =
     (case spec of
        ExportSpecifier local (ExportedIdentifier name) \<Rightarrow> setAdd name exports
      | ExportSpecifier local (ExportedStringLiteral v) \<Rightarrow> setAdd v exports
      | _ \<Rightarrow> exports)"

text \<open>The two visitors of the traversal, on one statement and, depth first and in source
  order, on the statements below it. On an exported block the visitor of the export
  declaration adds nothing (the declaration is neither a function nor a variable
  declaration, and there is no specifier), then the traversal goes into the block.\<close>

fun visitStatement :: "string list \<Rightarrow> statement \<Rightarrow> string list" where
  "visitStatement exports (ExportNamedDeclaration decl specifiers) =
     foldl addSpecifier
       (case decl of
          Some (FunctionDeclaration (Some name)) \<Rightarrow> setAdd name exports
        | Some (VariableDeclaration declarations) \<Rightarrow> foldl addDeclarator exports declarations
        | _ \<Rightarrow> exports)
       specifiers"
| "visitStatement exports ExportDefaultDeclaration = setAdd ''default'' exports"
| "visitStatement exports (ExportAllDeclaration source) = exports"
| "visitStatement exports (TSModuleDeclaration isExported name body) =
     foldl visitStatement exports body"
| "visitStatement exports OtherStatement = exports"

text \<open>\<^verbatim>\<open>extractExports\<close>: the set stored in \<^verbatim>\<open>componentExportMap\<close>; a parse failure
  (\<open>None\<close>) falls back to the default export alone.\<close>

definition extractExports :: "statement list option \<Rightarrow> string list" where
  "extractExports parsed =
     (case parsed of
        None \<Rightarrow> [''default'']
      | Some ast \<Rightarrow> foldl visitStatement [] ast)"

section \<open>The nuclear elimination engine: stubs\<close>

text \<open>
  The stub \<^verbatim>\<open>createEmptyExport\<close> writes is a fixed text around three lists: the constants
  it declares (each with its display name), the names in its \<^verbatim>\<open>export { ... }\<close> line, and
  the constant of its \<^verbatim>\<open>export default\<close> line, if any.
\<close>

record stubModule =
  sm_consts :: "(string \<times> string) list"
  sm_namedExports :: "string list"
  sm_defaultExport :: "string option"

text \<open>\<^verbatim>\<open>name.replace(/-/g, '_')\<close>.\<close>

definition replaceDashes :: "string \<Rightarrow> string" where
  "replaceDashes name = map (\<lambda>ch. if ch = CHR ''-'' then CHR ''_'' else ch) name"

definition stubStep :: "string \<Rightarrow> stubModule \<Rightarrow> string \<Rightarrow> stubModule" where
  "stubStep componentName stub exportName =
     (if exportName = ''default'' then
        stub\<lparr>sm_consts := sm_consts stub @ [(replaceDashes componentName @ ''_default'', componentName)],
             sm_defaultExport := Some (replaceDashes componentName @ ''_default'')\<rparr>
      else
        stub\<lparr>sm_consts := sm_consts stub @ [(replaceDashes exportName, exportName)],
             sm_namedExports := sm_namedExports stub @ [replaceDashes exportName]\<rparr>)"

definition buildStub :: "string \<Rightarrow> string list \<Rightarrow> stubModule" where
  "buildStub componentName exports =
     foldl (stubStep componentName)
       \<lparr>sm_consts = [], sm_namedExports = [], sm_defaultExport = None\<rparr> exports"

text \<open>The module the stub text is: its import and constants export nothing, then the
  \<^verbatim>\<open>export { ... }\<close> line when there is a named export, then the \<^verbatim>\<open>export default\<close> line.\<close>

definition stubAst :: "stubModule \<Rightarrow> statement list" where
  "stubAst stub =
     OtherStatement # map (\<lambda>c. OtherStatement) (sm_consts stub)
     @ (if length (sm_namedExports stub) > 0
        then [ExportNamedDeclaration None
                (map (\<lambda>n. ExportSpecifier n (ExportedIdentifier n)) (sm_namedExports stub))]
        else [])
     @ (case sm_defaultExport stub of None \<Rightarrow> [] | Some c \<Rightarrow> [ExportDefaultDeclaration])"

section \<open>The exported names of a module, in the words of the specification\<close>

text \<open>
  The exported symbol names of a module: the names its exported declarations bind
  (functions, classes, variables, also through destructuring, enums, namespaces and
  types), the exported names of its export specifiers (also of \<^verbatim>\<open>export * as ns\<close>), and
  \<^verbatim>\<open>default\<close> for a default export. An exported namespace exports its own name; what is
  exported inside a namespace or an ambient module block is a member of that block, not an
  export of the module. The names an \<^verbatim>\<open>export * from\<close> passes on are those of another
  module and are not counted.
\<close>

fun boundNames :: "lval \<Rightarrow> string list" where
  "boundNames (Identifier name) = [name]"
| "boundNames (ObjectPattern names) = names"
| "boundNames (ArrayPattern names) = names"

fun declarationNames :: "declarationNode \<Rightarrow> string list" where
  "declarationNames (FunctionDeclaration None) = []"
| "declarationNames (FunctionDeclaration (Some name)) = [name]"
| "declarationNames (VariableDeclaration declarations) = concat (map boundNames declarations)"
| "declarationNames (ClassDeclaration name) = [name]"
| "declarationNames (OtherDeclaration name) = [name]"

fun specifierName :: "specifier \<Rightarrow> string" where
  "specifierName (ExportSpecifier local (ExportedIdentifier name)) = name"
| "specifierName (ExportSpecifier local (ExportedStringLiteral v)) = v"
| "specifierName (ExportNamespaceSpecifier name) = name"

fun statementExports :: "statement \<Rightarrow> string list" where
  "statementExports (ExportNamedDeclaration decl specifiers) =
     (case decl of None \<Rightarrow> [] | Some d \<Rightarrow> declarationNames d) @ map specifierName specifiers"
| "statementExports ExportDefaultDeclaration = [''default'']"
| "statementExports (ExportAllDeclaration source) = []"
| "statementExports (TSModuleDeclaration isExported name body) = (if isExported then [name] else [])"
| "statementExports OtherStatement = []"

definition exportedNames :: "statement list \<Rightarrow> string set" where
  "exportedNames ast = set (concat (map statementExports ast))"

text \<open>The shapes of export that \<^verbatim>\<open>extractExports\<close> reads: a function, a variable
  declaration whose declarators are identifiers, export specifiers, a default export, all
  at the top level of the module.\<close>

fun handledDeclarator :: "lval \<Rightarrow> bool" where
  "handledDeclarator (Identifier name) = True"
| "handledDeclarator (ObjectPattern names) = False"
| "handledDeclarator (ArrayPattern names) = False"

fun handledDeclaration :: "declarationNode \<Rightarrow> bool" where
  "handledDeclaration (FunctionDeclaration name) = True"
| "handledDeclaration (VariableDeclaration declarations) = list_all handledDeclarator declarations"
| "handledDeclaration (ClassDeclaration name) = False"
| "handledDeclaration (OtherDeclaration name) = False"

fun handledSpecifier :: "specifier \<Rightarrow> bool" where
  "handledSpecifier (ExportSpecifier local name) = True"
| "handledSpecifier (ExportNamespaceSpecifier name) = False"

fun handledStatement :: "statement \<Rightarrow> bool" where
  "handledStatement (ExportNamedDeclaration decl specifiers) =
     ((case decl of None \<Rightarrow> True | Some d \<Rightarrow> handledDeclaration d)
      \<and> list_all handledSpecifier specifiers)"
| "handledStatement ExportDefaultDeclaration = True"
| "handledStatement (ExportAllDeclaration source) = False"
| "handledStatement (TSModuleDeclaration isExported name body) = False"
| "handledStatement OtherStatement = True"

section \<open>The nuclear elimination engine: deletion and zero state\<close>

text \<open>
  A component file is its directory below the project, its base name and its extension;
  \<^verbatim>\<open>path.basename(filePath, path.extname(filePath))\<close> is the base name. The live tree maps a
  file to its content, a source text or a stub. \<^verbatim>\<open>createEmptyExport\<close> writes the stub to
  the path of the original below the project directory, which is the original's own path
  (the project directory is taken to have no segment named \<^verbatim>\<open>client\<close>).
\<close>

record componentPath =
  cp_directory :: string
  cp_base :: string
  cp_ext :: string

datatype fileContent = SourceText string | StubFile stubModule

record nuclearState =
  deletedComponents :: "(string, fileContent) jsMap"
  componentPaths :: "(string, componentPath) jsMap"
  componentExportMap :: "(string, string list) jsMap"
  liveFiles :: "componentPath \<Rightarrow> fileContent option"

datatype nuclearMode = ScorchedEarth | Surgical | Hybrid

datatype rebuildStrategy = Minimal | Inline | Mangle

record nuclearConfig =
  nc_mode :: nuclearMode
  preserveList :: "string list"
  testCommand :: string
  nc_maxIterations :: int
  nc_rebuildStrategy :: rebuildStrategy

definition criticalComponents :: "string list" where
  "criticalComponents = [''App'', ''main'', ''index'']"

text \<open>What Babel makes of a content: of a source text what the parser says, of a stub
  the module it is.\<close>

definition parseContent :: "(string \<Rightarrow> statement list option) \<Rightarrow> fileContent \<Rightarrow> statement list option" where
  "parseContent parse content =
     (case content of SourceText s \<Rightarrow> parse s | StubFile stub \<Rightarrow> Some (stubAst stub))"

text \<open>\<^verbatim>\<open>scanAndDeleteAllComponents\<close> over the files of the glob; reading a file that is not
  there throws, and nothing in the function catches it.\<close>

fun scanAndDeleteAllComponents ::
  "(string \<Rightarrow> statement list option) \<Rightarrow> componentPath list \<Rightarrow> nuclearState \<Rightarrow> string + nuclearState" where
  "scanAndDeleteAllComponents parse [] st = Inr st"
| "scanAndDeleteAllComponents parse (filePath # componentFiles) st =
     (if cp_base filePath \<notin> set criticalComponents then
        (case liveFiles st filePath of
           None \<Rightarrow> Inl ''ENOENT''
         | Some content \<Rightarrow>
             scanAndDeleteAllComponents parse componentFiles
               (st\<lparr>deletedComponents := mapSet (cp_base filePath) content (deletedComponents st),
                    componentPaths := mapSet (cp_base filePath) filePath (componentPaths st),
                    componentExportMap :=
                      mapSet (cp_base filePath) (extractExports (parseContent parse content))
                        (componentExportMap st),
                    liveFiles := (liveFiles st)(filePath := None)\<rparr>))
      else scanAndDeleteAllComponents parse componentFiles st)"

definition createEmptyExport :: "nuclearState \<Rightarrow> string \<Rightarrow> nuclearState" where
  "createEmptyExport st componentName =
     (case map_of (componentPaths st) componentName of
        None \<Rightarrow> st
      | Some originalPath \<Rightarrow>
          st\<lparr>liveFiles := (liveFiles st)(originalPath \<mapsto>
               StubFile (buildStub componentName
                 (case map_of (componentExportMap st) componentName of
                    None \<Rightarrow> [''default'']
                  | Some exports \<Rightarrow> exports)))\<rparr>)"

definition createZeroState :: "nuclearState \<Rightarrow> nuclearState" where
  "createZeroState st = foldl createEmptyExport st (map fst (deletedComponents st))"

text \<open>Steps 2 and 3 of \<^verbatim>\<open>executeNuclearOptimization(projectPath, config)\<close>: the deletion
  scan, then the zero state. Neither is handed the configuration.\<close>

definition nuclearElimination ::
  "nuclearConfig \<Rightarrow> (string \<Rightarrow> statement list option) \<Rightarrow> componentPath list \<Rightarrow> nuclearState \<Rightarrow>
   string + nuclearState" where
  "nuclearElimination config parse componentFiles st =
     (case scanAndDeleteAllComponents parse componentFiles st of
        Inl msg \<Rightarrow> Inl msg
      | Inr st1 \<Rightarrow> Inr (createZeroState st1))"

text \<open>
  A project for concrete runs: \<^verbatim>\<open>client/src/components/Header.tsx\<close> with one exported
  function, \<^verbatim>\<open>client/src/components/Widget.tsx\<close> with one exported class, and the entry
  point \<^verbatim>\<open>client/src/components/App.tsx\<close>. The caller asks to preserve \<^verbatim>\<open>Header\<close>.
\<close>

definition componentAt :: "string \<Rightarrow> componentPath" where
  "componentAt name = \<lparr>cp_directory = ''client/src/components'', cp_base = name, cp_ext = ''.tsx''\<rparr>"

definition headerSource :: string where
  "headerSource = ''export function Header() { return null }''"

definition widgetSource :: string where
  "widgetSource = ''export class Widget extends React.Component {}''"

definition appSource :: string where
  "appSource = ''export default function App() { return null }''"

definition exampleParse :: "string \<Rightarrow> statement list option" where
  "exampleParse text =
     (if text = headerSource
      then Some [ExportNamedDeclaration (Some (FunctionDeclaration (Some ''Header''))) []]
      else if text = widgetSource
      then Some [OtherStatement, ExportNamedDeclaration (Some (ClassDeclaration ''Widget'')) []]
      else if text = appSource
      then Some [ExportDefaultDeclaration]
      else None)"

definition exampleNuclearState :: nuclearState where
  "exampleNuclearState =
     \<lparr>deletedComponents = [], componentPaths = [], componentExportMap = [],
      liveFiles = [componentAt ''Header'' \<mapsto> SourceText headerSource,
                   componentAt ''Widget'' \<mapsto> SourceText widgetSource,
                   componentAt ''App'' \<mapsto> SourceText appSource]\<rparr>"

definition exampleNuclearConfig :: nuclearConfig where
  "exampleNuclearConfig =
     \<lparr>nc_mode = ScorchedEarth, preserveList = [''App'', ''main'', ''index'', ''Header''],
      testCommand = ''npm run build'', nc_maxIterations = 50, nc_rebuildStrategy = Mangle\<rparr>"

definition exampleComponentFiles :: "componentPath list" where
  "exampleComponentFiles = [componentAt ''App'', componentAt ''Header'', componentAt ''Widget'']"

section \<open>Properties of the bisection loop\<close>

lemma bsLoop_stop:
  "\<not> (length ws > 0 \<and> counterBelow it (maxIterations config)) \<Longrightarrow>
   bsLoop env v config t ws restored it steps probes = (t, restored, steps, probes)"
  by (subst bsLoop.simps) auto

lemma bsLoop_last:
  "length ws > 0 \<Longrightarrow> counterBelow it (maxIterations config) \<Longrightarrow>
   bsIteration env v config t restored (it + 1) (take (halfSize ws) ws) = (t1, r1, step, p) \<Longrightarrow>
   counterReached (it + 1) (maxIterations config) \<Longrightarrow>
   bsLoop env v config t ws restored it steps probes = (t1, r1, steps @ [step], probes + p)"
  by (subst bsLoop.simps) auto

lemma bsLoop_next:
  "length ws > 0 \<Longrightarrow> counterBelow it (maxIterations config) \<Longrightarrow>
   bsIteration env v config t restored (it + 1) (take (halfSize ws) ws) = (t1, r1, step, p) \<Longrightarrow>
   \<not> counterReached (it + 1) (maxIterations config) \<Longrightarrow>
   bsLoop env v config t ws restored it steps probes =
   bsLoop env v config t1 (drop (halfSize ws) ws) r1 (it + 1) (steps @ [step]) (probes + p)"
  by (subst bsLoop.simps) auto

lemma bsIteration_step:
  "bsIteration env v config t restored it testSet = (t', restored', step, p) \<Longrightarrow>
   rs_components step = testSet \<and> rs_iteration step = it \<and> p \<le> 1"
  by (auto simp: bsIteration_def Let_def split: if_splits)

subsection \<open>The schedule\<close>

lemma splitSchedule_empty: "splitSchedule k [] = []"
  by (cases k) auto

lemma splitSchedule_length: "length (splitSchedule k ws) \<le> k"
  by (induction k arbitrary: ws) auto

lemma halfSize_positive: "ws \<noteq> [] \<Longrightarrow> 0 < halfSize ws"
  by (cases ws) (auto simp: halfSize_def)

text \<open>Fuel beyond the length of the working set changes nothing.\<close>

lemma splitSchedule_enough:
  "length ws \<le> k \<Longrightarrow> length ws \<le> k' \<Longrightarrow> splitSchedule k ws = splitSchedule k' ws"
proof (induction k arbitrary: k' ws)
  case 0
  then show ?case by (simp add: splitSchedule_empty)
next
  case (Suc k)
  show ?case
  proof (cases "ws = []")
    case True
    then show ?thesis by (simp add: splitSchedule_empty)
  next
    case False
    then obtain j where k': "k' = Suc j" using Suc.prems(2) by (cases k') auto
    have shorter: "length (drop (halfSize ws) ws) < length ws"
      using False halfSize_positive [OF False] by simp
    have "splitSchedule k (drop (halfSize ws) ws) = splitSchedule j (drop (halfSize ws) ws)"
      using shorter Suc.prems k' by (intro Suc.IH) auto
    then show ?thesis using False k' by simp
  qed
qed

lemma splitSchedule_halts:
  "length (splitSchedule k ws) = k \<or> concat (splitSchedule k ws) = ws"
proof (induction k arbitrary: ws)
  case 0
  show ?case by simp
next
  case (Suc k)
  show ?case
  proof (cases "ws = []")
    case True
    then show ?thesis by simp
  next
    case False
    from Suc.IH [of "drop (halfSize ws) ws"] show ?thesis using False by auto
  qed
qed

lemma halfSize_ceiling: "halfSize ws = nat \<lceil>real (length ws) / 2\<rceil>"
  unfolding halfSize_def by linarith

lemma splitSchedule_nth:
  "k < length (splitSchedule m ws) \<Longrightarrow>
   splitSchedule m ws ! k =
     take (halfSize (drop (length (concat (take k (splitSchedule m ws)))) ws))
          (drop (length (concat (take k (splitSchedule m ws)))) ws)"
proof (induction m arbitrary: ws k)
  case 0
  then show ?case by simp
next
  case (Suc m)
  show ?case
  proof (cases "ws = []")
    case True
    then show ?thesis using Suc.prems by simp
  next
    case False
    let ?h = "halfSize ws"
    have sched: "splitSchedule (Suc m) ws = take ?h ws # splitSchedule m (drop ?h ws)"
      using False by simp
    show ?thesis
    proof (cases k)
      case 0
      then show ?thesis using sched by simp
    next
      case (Suc j)
      have j: "j < length (splitSchedule m (drop ?h ws))"
        using Suc.prems sched Suc by simp
      have hle: "?h \<le> length ws" by (simp add: halfSize_def)
      have len: "length (concat (take k (splitSchedule (Suc m) ws)))
                 = ?h + length (concat (take j (splitSchedule m (drop ?h ws))))"
        using sched Suc hle by simp
      show ?thesis
        using Suc.IH [OF j] sched Suc len by (simp add: add.commute)
    qed
  qed
qed

subsection \<open>The schedule a bound allows\<close>

lemma budget_whole: "iterationBudget (Number (of_int n)) 0 ws = nat n"
  by (simp add: iterationBudget_def)

lemma budget_number: "iterationBudget (Number r) 0 ws = nat \<lceil>r\<rceil>"
  by (simp add: iterationBudget_def)

lemma schedule_stop:
  assumes "\<not> (length ws > 0 \<and> counterBelow i b)"
  shows "splitSchedule (iterationBudget b i ws) ws = []"
proof (cases "ws = []")
  case True
  then show ?thesis by (simp add: splitSchedule_empty)
next
  case False
  then have nb: "\<not> counterBelow i b" using assms by simp
  have "iterationBudget b i ws = 0"
  proof (cases b)
    case (Number r)
    then have "r - of_int i \<le> 0" using nb by (simp add: counterBelow_def)
    then have "\<lceil>r - of_int i\<rceil> \<le> 0" by (simp add: ceiling_le_iff)
    then show ?thesis using Number by (simp add: iterationBudget_def)
  qed (use nb in \<open>simp_all add: iterationBudget_def counterBelow_def\<close>)
  then show ?thesis by simp
qed

lemma schedule_step:
  assumes "length ws > 0" and "counterBelow i b"
  shows "splitSchedule (iterationBudget b i ws) ws =
         take (halfSize ws) ws #
         (if counterReached (i + 1) b then []
          else splitSchedule (iterationBudget b (i + 1) (drop (halfSize ws) ws))
                 (drop (halfSize ws) ws))"
proof (cases b)
  case (Number r)
  have lt: "of_int i < r" using assms(2) Number by (simp add: counterBelow_def)
  have c: "\<lceil>r - of_int i\<rceil> = \<lceil>r - of_int (i + 1)\<rceil> + 1" by simp linarith
  have pos: "0 \<le> \<lceil>r - of_int (i + 1)\<rceil>"
  proof -
    have "0 < \<lceil>r - of_int i\<rceil>" using lt by (simp add: less_ceiling_iff)
    then show ?thesis using c by linarith
  qed
  have suc: "iterationBudget b i ws = Suc (iterationBudget b (i + 1) (drop (halfSize ws) ws))"
    using Number c pos by (simp add: iterationBudget_def nat_add_distrib)
  have reached: "counterReached (i + 1) b \<Longrightarrow>
                 iterationBudget b (i + 1) (drop (halfSize ws) ws) = 0"
  proof -
    assume "counterReached (i + 1) b"
    then have "r - of_int (i + 1) \<le> 0" using Number by (simp add: counterReached_def)
    then have "\<lceil>r - of_int (i + 1)\<rceil> \<le> 0" by (simp add: ceiling_le_iff)
    then show ?thesis using Number by (simp add: iterationBudget_def)
  qed
  show ?thesis using assms(1) suc reached by auto
next
  case PlusInfinity
  have ne: "ws \<noteq> []" using assms(1) by auto
  obtain n where n: "length ws = Suc n" using assms(1) by (cases "length ws") auto
  have shorter: "length (drop (halfSize ws) ws) \<le> n"
    using n halfSize_positive [OF ne] by simp
  have "splitSchedule n (drop (halfSize ws) ws)
        = splitSchedule (length (drop (halfSize ws) ws)) (drop (halfSize ws) ws)"
    using shorter by (intro splitSchedule_enough) auto
  then show ?thesis
    using PlusInfinity ne n by (simp add: iterationBudget_def counterReached_def)
qed (use assms(2) in \<open>simp_all add: counterBelow_def\<close>)

lemma schedule_nonempty:
  "splitSchedule (iterationBudget b 0 ws) ws \<noteq> [] \<longleftrightarrow> ws \<noteq> [] \<and> counterBelow 0 b"
proof (cases "length ws > 0 \<and> counterBelow 0 b")
  case True
  then show ?thesis using schedule_step [of ws 0 b] by auto
next
  case False
  then show ?thesis using schedule_stop [OF False] by auto
qed

subsection \<open>The loop as a run over its schedule\<close>

lemma loop_as_iterations:
  "bsLoop env v config t ws restored it steps probes =
   runIterations env v config (t, restored, steps, probes) it
     (splitSchedule (iterationBudget (maxIterations config) it ws) ws)"
proof (induction env v config t ws restored it steps probes rule: bsLoop.induct)
  case (1 env v config t ws restored it steps probes)
  show ?case
  proof (cases "length ws > 0 \<and> counterBelow it (maxIterations config)")
    case False
    show ?thesis
      using bsLoop_stop [OF False, of env v t restored steps probes] schedule_stop [OF False]
      by simp
  next
    case True
    then have c: "length ws > 0" "counterBelow it (maxIterations config)" by simp_all
    obtain t1 r1 step p where it1:
      "bsIteration env v config t restored (it + 1) (take (halfSize ws) ws) = (t1, r1, step, p)"
      by (cases "bsIteration env v config t restored (it + 1) (take (halfSize ws) ws)") auto
    note sched = schedule_step [OF c]
    show ?thesis
    proof (cases "counterReached (it + 1) (maxIterations config)")
      case stop: True
      show ?thesis
        using bsLoop_last [OF c it1 stop, of steps probes] sched stop it1 by simp
    next
      case go: False
      have "bsLoop env v config t1 (drop (halfSize ws) ws) r1 (it + 1) (steps @ [step]) (probes + p)
            = runIterations env v config (t1, r1, steps @ [step], probes + p) (it + 1)
                (splitSchedule (iterationBudget (maxIterations config) (it + 1)
                   (drop (halfSize ws) ws)) (drop (halfSize ws) ws))"
        using "1.IH" [OF True it1 [symmetric] refl refl go] .
      then show ?thesis
        using bsLoop_next [OF c it1 go, of steps probes] sched go it1 by simp
    qed
  qed
qed

lemma run_snoc:
  "runIterations env v config st i (testSets @ [testSet]) =
   (case runIterations env v config st i testSets of
      (t, restored, steps, probes) \<Rightarrow>
        (case bsIteration env v config t restored (i + int (length testSets) + 1) testSet of
           (t', restored', step, p) \<Rightarrow> (t', restored', steps @ [step], probes + p)))"
proof (induction testSets arbitrary: st i)
  case Nil
  show ?case by (cases st) (auto split: prod.splits)
next
  case (Cons x testSets)
  obtain t restored steps probes where st: "st = (t, restored, steps, probes)"
    by (cases st) auto
  obtain t1 r1 step p where b: "bsIteration env v config t restored (i + 1) x = (t1, r1, step, p)"
    by (cases "bsIteration env v config t restored (i + 1) x") auto
  show ?case
    using Cons.IH [of "(t1, r1, steps @ [step], probes + p)" "i + 1"] st b
    by (simp add: add.assoc add.commute)
qed

lemma run_log:
  assumes "runIterations env v config (t, restored, steps, probes) i testSets
           = (t', restored', steps', probes')"
  shows "map rs_components steps' = map rs_components steps @ testSets \<and>
         map rs_iteration steps'
           = map rs_iteration steps @ map (\<lambda>j. i + 1 + int j) [0..<length testSets] \<and>
         probes' \<le> probes + length testSets"
  using assms
proof (induction testSets arbitrary: t' restored' steps' probes' rule: rev_induct)
  case Nil
  then show ?case by simp
next
  case (snoc x testSets)
  obtain t0 r0 s0 p0 where prev:
    "runIterations env v config (t, restored, steps, probes) i testSets = (t0, r0, s0, p0)"
    by (cases "runIterations env v config (t, restored, steps, probes) i testSets") auto
  obtain t1 r1 step p where b:
    "bsIteration env v config t0 r0 (i + int (length testSets) + 1) x = (t1, r1, step, p)"
    by (cases "bsIteration env v config t0 r0 (i + int (length testSets) + 1) x") auto
  have last: "steps' = s0 @ [step]" "probes' = p0 + p"
    using snoc.prems prev b by (simp_all add: run_snoc)
  note ih = snoc.IH [OF prev]
  note st = bsIteration_step [OF b]
  show ?case using ih st last by (simp add: add.commute add.left_commute)
qed

lemma search_run:
  "runIterations env v config (t, [], steps0, 0) 0
     (splitSchedule (iterationBudget (maxIterations config) 0 elim) elim)
   = (sr_tree (binarySearchOptimalSet env v config t elim deps steps0),
      sr_restoredComponents (binarySearchOptimalSet env v config t elim deps steps0),
      sr_steps (binarySearchOptimalSet env v config t elim deps steps0),
      sr_outerProbes (binarySearchOptimalSet env v config t elim deps steps0))"
  unfolding binarySearchOptimalSet_def loop_as_iterations
  by (cases "runIterations env v config (t, [], steps0, 0) 0
               (splitSchedule (iterationBudget (maxIterations config) 0 elim) elim)") simp

lemma search_components:
  "map rs_components (sr_steps (binarySearchOptimalSet env v config t elim deps [])) =
   splitSchedule (iterationBudget (maxIterations config) 0 elim) elim"
  using run_log [OF search_run [of env v config t "[]" elim deps]] by simp

lemma search_iterations:
  "map rs_iteration (sr_steps (binarySearchOptimalSet env v config t elim deps [])) =
   map int [1..<Suc (length (sr_steps (binarySearchOptimalSet env v config t elim deps [])))]"
proof -
  let ?steps = "sr_steps (binarySearchOptimalSet env v config t elim deps [])"
  let ?S = "splitSchedule (iterationBudget (maxIterations config) 0 elim) elim"
  note log = run_log [OF search_run [of env v config t "[]" elim deps]]
  have len: "length ?steps = length ?S"
    using log by (metis append_Nil length_map list.simps(8))
  have "map rs_iteration ?steps = map (\<lambda>j. 1 + int j) [0..<length ?S]" using log by simp
  also have "\<dots> = map int (map Suc [0..<length ?S])" by simp
  also have "\<dots> = map int [1..<Suc (length ?S)]"
    by (simp only: map_Suc_upt One_nat_def)
  finally show ?thesis using len by simp
qed

lemma search_length:
  "length (sr_steps (binarySearchOptimalSet env v config t elim deps []))
   = length (splitSchedule (iterationBudget (maxIterations config) 0 elim) elim)"
  using arg_cong [OF search_components [of env v config t elim deps], of length] by simp

lemma search_probes:
  "sr_outerProbes (binarySearchOptimalSet env v config t elim deps [])
   \<le> length (sr_steps (binarySearchOptimalSet env v config t elim deps []))"
  unfolding search_length
  using run_log [OF search_run [of env v config t "[]" elim deps]] by simp

lemma perform_steps:
  "\<not> (ch_eliminatedComponents (pr_changes failedPhase) = [] \<and>
      ch_eliminatedDependencies (pr_changes failedPhase) = []) \<Longrightarrow>
   rr_recoverySteps (fst (performBinarySearchRecovery env t failedPhase v config)) =
   sr_steps (binarySearchOptimalSet env v (mergeConfig config) t
              (ch_eliminatedComponents (pr_changes failedPhase))
              (ch_eliminatedDependencies (pr_changes failedPhase)) [])"
  by (auto simp: performBinarySearchRecovery_def Let_def split: option.splits sum.splits)

lemma perform_steps_empty:
  "ch_eliminatedComponents (pr_changes failedPhase) = [] \<Longrightarrow>
   ch_eliminatedDependencies (pr_changes failedPhase) = [] \<Longrightarrow>
   rr_recoverySteps (fst (performBinarySearchRecovery env t failedPhase v config)) = []"
  by (simp add: performBinarySearchRecovery_def Let_def)

text \<open>The three ways \<^verbatim>\<open>performBinarySearchRecovery\<close> returns.\<close>

lemma perform_outcome:
  "(ch_eliminatedComponents (pr_changes failedPhase) = [] \<and>
    ch_eliminatedDependencies (pr_changes failedPhase) = [] \<and>
    rr_errors (fst (performBinarySearchRecovery env t failedPhase v config))
      = [''No changes detected to recover from''] \<and>
    rr_restoredComponents (fst (performBinarySearchRecovery env t failedPhase v config)) = [])
   \<or> (rr_errors (fst (performBinarySearchRecovery env t failedPhase v config)) = [] \<and>
       rr_restoredComponents (fst (performBinarySearchRecovery env t failedPhase v config))
         = sr_restoredComponents (binarySearchOptimalSet env v (mergeConfig config) t
              (ch_eliminatedComponents (pr_changes failedPhase))
              (ch_eliminatedDependencies (pr_changes failedPhase)) []))
   \<or> (\<exists>msg. captureMetrics env (sr_tree (binarySearchOptimalSet env v (mergeConfig config) t
              (ch_eliminatedComponents (pr_changes failedPhase))
              (ch_eliminatedDependencies (pr_changes failedPhase)) [])) = Inl msg
        \<and> rr_errors (fst (performBinarySearchRecovery env t failedPhase v config))
            = [''Recovery failed: '' @ msg]
        \<and> rr_restoredComponents (fst (performBinarySearchRecovery env t failedPhase v config)) = [])"
  by (auto simp: performBinarySearchRecovery_def Let_def split: option.splits sum.splits)


subsection \<open>What the Minimize pass keeps\<close>





section \<open>The entry point on an empty change-set\<close>

text \<open>
  C10. When the failed phase handed to \<^verbatim>\<open>performBinarySearchRecovery\<close> has eliminated no
  component and no dependency, the call returns at once: success is false, the only error
  is \<^verbatim>\<open>No changes detected to recover from\<close>, \<^verbatim>\<open>totalIterations\<close> is 0, the minimal and
  restored sets and the step log are empty, and the working tree is the one it was given
  (nothing was restored or removed).
\<close>

theorem empty_changeset_returns_immediately:
  assumes "ch_eliminatedComponents (pr_changes failedPhase) = []"
    and "ch_eliminatedDependencies (pr_changes failedPhase) = []"
  shows "performBinarySearchRecovery env t failedPhase v config =
     (\<lparr>rr_success = False, rr_minimalDependencies = [], rr_minimalComponents = [],
       rr_restoredComponents = [], rr_totalIterations = 0, rr_finalMetrics = None,
       rr_recoverySteps = [],
       rr_errors = [''No changes detected to recover from''],
       rr_performance = None\<rparr>, t)"
  using assms by (simp add: performBinarySearchRecovery_def Let_def)

theorem empty_changeset_returns_immediately_witness:
  "ch_eliminatedComponents (pr_changes (failedAlpha [])) = [] \<and>
   ch_eliminatedDependencies (pr_changes (failedAlpha [])) = [] \<and>
   performBinarySearchRecovery exampleEnv exampleTree (failedAlpha []) (Some exampleValidator) None =
     (\<lparr>rr_success = False, rr_minimalDependencies = [], rr_minimalComponents = [],
       rr_restoredComponents = [], rr_totalIterations = 0, rr_finalMetrics = None,
       rr_recoverySteps = [],
       rr_errors = [''No changes detected to recover from''],
       rr_performance = None\<rparr>, exampleTree)"
proof -
  have a: "ch_eliminatedComponents (pr_changes (failedAlpha [])) = []"
    and b: "ch_eliminatedDependencies (pr_changes (failedAlpha [])) = []"
    by (simp_all add: failedAlpha_def)
  show ?thesis
    using a b empty_changeset_returns_immediately [OF a b, of exampleEnv exampleTree
        "Some exampleValidator" None]
    by simp
qed

section \<open>The reported iteration count\<close>

text \<open>
  C9 as stated: \<^verbatim>\<open>totalIterations\<close> is always 0, so the result under-reports the iteration
  count on every input with a non-empty elimination set. The second part fails when no
  iteration runs: with two eliminated components and the iteration bound 0 the step log
  is empty, and the reported 0 is the number of iterations that ran.
\<close>

theorem zero_bound_reports_true_count_counterexample:
  "ch_eliminatedComponents (pr_changes (failedAlpha [''A'', ''B''])) \<noteq> [] \<and>
   int (length (rr_recoverySteps (fst (performBinarySearchRecovery exampleEnv exampleTree
      (failedAlpha [''A'', ''B'']) (Some exampleValidator) (Some zeroBound)))))
   = rr_totalIterations (fst (performBinarySearchRecovery exampleEnv exampleTree
      (failedAlpha [''A'', ''B'']) (Some exampleValidator) (Some zeroBound)))"
  by code_simp

text \<open>
  C9 as amended: \<^verbatim>\<open>totalIterations\<close> is 0 on every input. The loop counts in its own
  variable, which numbers the steps it logs 1, 2, ..., so the number of iterations that ran
  is the length of the step log. At least one iteration runs, and the field then
  under-reports, exactly when the list of eliminated components is not empty and the
  iteration bound is above 0.
\<close>

theorem totalIterations_always_zero:
  "rr_totalIterations (fst (performBinarySearchRecovery env t failedPhase v config)) = 0 \<and>
   map rs_iteration (rr_recoverySteps (fst (performBinarySearchRecovery env t failedPhase v config)))
     = map int [1..<Suc (length (rr_recoverySteps
          (fst (performBinarySearchRecovery env t failedPhase v config))))] \<and>
   (length (rr_recoverySteps (fst (performBinarySearchRecovery env t failedPhase v config))) \<ge> 1
      \<longleftrightarrow> ch_eliminatedComponents (pr_changes failedPhase) \<noteq> [] \<and>
           counterBelow 0 (maxIterations (mergeConfig config)))"
proof (intro conjI)
  let ?steps = "rr_recoverySteps (fst (performBinarySearchRecovery env t failedPhase v config))"
  show "rr_totalIterations (fst (performBinarySearchRecovery env t failedPhase v config)) = 0"
    by (auto simp: performBinarySearchRecovery_def Let_def split: option.splits sum.splits)
  show "map rs_iteration ?steps = map int [1..<Suc (length ?steps)]"
  proof (cases "ch_eliminatedComponents (pr_changes failedPhase) = [] \<and>
      ch_eliminatedDependencies (pr_changes failedPhase) = []")
    case True
    then show ?thesis by (simp add: perform_steps_empty)
  next
    case False
    show ?thesis unfolding perform_steps [OF False] by (rule search_iterations)
  qed
  show "length ?steps \<ge> 1
      \<longleftrightarrow> ch_eliminatedComponents (pr_changes failedPhase) \<noteq> [] \<and>
           counterBelow 0 (maxIterations (mergeConfig config))"
  proof (cases "ch_eliminatedComponents (pr_changes failedPhase) = [] \<and>
      ch_eliminatedDependencies (pr_changes failedPhase) = []")
    case True
    then show ?thesis by (simp add: perform_steps_empty)
  next
    case False
    have "length ?steps = length (map rs_components ?steps)" by simp
    also have "\<dots> = length (splitSchedule
        (iterationBudget (maxIterations (mergeConfig config)) 0
           (ch_eliminatedComponents (pr_changes failedPhase)))
        (ch_eliminatedComponents (pr_changes failedPhase)))"
      unfolding perform_steps [OF False] search_components ..
    finally show ?thesis
      using schedule_nonempty [of "maxIterations (mergeConfig config)"
          "ch_eliminatedComponents (pr_changes failedPhase)"]
      by (cases "splitSchedule
        (iterationBudget (maxIterations (mergeConfig config)) 0
           (ch_eliminatedComponents (pr_changes failedPhase)))
        (ch_eliminatedComponents (pr_changes failedPhase))") auto
  qed
qed

theorem totalIterations_always_zero_witness:
  "rr_totalIterations (fst (performBinarySearchRecovery exampleEnv exampleTree
      (failedAlpha [''A'', ''B'']) (Some exampleValidator) None)) = 0 \<and>
   length (rr_recoverySteps (fst (performBinarySearchRecovery exampleEnv exampleTree
      (failedAlpha [''A'', ''B'']) (Some exampleValidator) None))) = 2 \<and>
   ch_eliminatedComponents (pr_changes (failedAlpha [''A'', ''B''])) \<noteq> [] \<and>
   counterBelow 0 (maxIterations (mergeConfig None))"
proof -
  have l: "length (rr_recoverySteps (fst (performBinarySearchRecovery exampleEnv exampleTree
      (failedAlpha [''A'', ''B'']) (Some exampleValidator) None))) = 2"
    by code_simp
  have "ch_eliminatedComponents (pr_changes (failedAlpha [''A'', ''B''])) \<noteq> [] \<and>
        counterBelow 0 (maxIterations (mergeConfig None))"
    using l totalIterations_always_zero [of exampleEnv exampleTree "failedAlpha [''A'', ''B'']"
        "Some exampleValidator" None]
    by simp
  then show ?thesis
    using l totalIterations_always_zero [of exampleEnv exampleTree "failedAlpha [''A'', ''B'']"
        "Some exampleValidator" None]
    by simp
qed

section \<open>Minimality of the restored set\<close>




text \<open>
  Necessity at the moment of the probe is not necessity in the final tree, even where every
  restored component went through the Minimize pass: on the project of six components the
  pass keeps \<^verbatim>\<open>X\<close> from the first test set and \<^verbatim>\<open>Y\<close>, \<^verbatim>\<open>Z\<close> from the second, the run
  succeeds, and the final tree still passes the probe with \<^verbatim>\<open>X\<close> removed.
\<close>

lemma minimized_component_not_necessary_in_final_tree:
  "rr_success (fst (performBinarySearchRecovery envXYZ treeXYZ
       (failedAlpha [''X'', ''W'', ''V'', ''Y'', ''Z'', ''U'']) (Some validatorXYZ) None)) \<and>
   rr_restoredComponents (fst (performBinarySearchRecovery envXYZ treeXYZ
       (failedAlpha [''X'', ''W'', ''V'', ''Y'', ''Z'', ''U'']) (Some validatorXYZ) None))
     = [''X'', ''X'', ''Y'', ''Z'', ''Y'', ''Z''] \<and>
   map rs_components (rr_recoverySteps (fst (performBinarySearchRecovery envXYZ treeXYZ
       (failedAlpha [''X'', ''W'', ''V'', ''Y'', ''Z'', ''U'']) (Some validatorXYZ) None)))
     = [[''X'', ''W'', ''V''], [''Y'', ''Z''], [''U'']] \<and>
   testCurrentState envXYZ (Some validatorXYZ) (mergeConfig None)
     (removeComponents envXYZ
        (snd (performBinarySearchRecovery envXYZ treeXYZ
           (failedAlpha [''X'', ''W'', ''V'', ''Y'', ''Z'', ''U'']) (Some validatorXYZ) None))
        [''X''])"
  by code_simp

section \<open>The split\<close>

text \<open>
  C3. In every outer iteration the test set is the first \<open>ceil(n/2)\<close> elements of the
  working set, which is what remains of the elimination list, in its order, after the test
  sets of the iterations before; so the \<open>k\<close>-th logged step holds exactly these
  components. The sequence of test sets is the schedule of the specification, which depends
  on the elimination list and the iteration bound only: equal inputs give equal steps.
\<close>

theorem split_is_first_half_in_elimination_order:
  assumes "k < length (sr_steps (binarySearchOptimalSet env v config t eliminated deps []))"
  shows "rs_components (sr_steps (binarySearchOptimalSet env v config t eliminated deps []) ! k) =
     take (nat \<lceil>real (length (drop (length (concat (map rs_components
              (take k (sr_steps (binarySearchOptimalSet env v config t eliminated deps []))))))
            eliminated)) / 2\<rceil>)
          (drop (length (concat (map rs_components
              (take k (sr_steps (binarySearchOptimalSet env v config t eliminated deps []))))))
            eliminated)
   \<and> map rs_components (sr_steps (binarySearchOptimalSet env v config t eliminated deps [])) =
      splitSchedule (iterationBudget (maxIterations config) 0 eliminated) eliminated
   \<and> (maxIterations config = Number (of_int n) \<longrightarrow>
      map rs_components (sr_steps (binarySearchOptimalSet env v config t eliminated deps [])) =
      splitSchedule (nat n) eliminated)"
proof -
  let ?steps = "sr_steps (binarySearchOptimalSet env v config t eliminated deps [])"
  let ?S = "splitSchedule (iterationBudget (maxIterations config) 0 eliminated) eliminated"
  have sched: "map rs_components ?steps = ?S" by (rule search_components)
  then have len: "length ?S = length ?steps" by (metis length_map)
  have k: "k < length ?S" using assms len by simp
  have nth: "rs_components (?steps ! k) = ?S ! k"
    using assms sched by (metis nth_map)
  have tk: "map rs_components (take k ?steps) = take k ?S"
    using sched by (metis take_map)
  have whole: "maxIterations config = Number (of_int n) \<longrightarrow>
      map rs_components ?steps = splitSchedule (nat n) eliminated"
    using sched by (simp add: budget_whole)
  show ?thesis
    using splitSchedule_nth [OF k] nth tk sched whole halfSize_ceiling by simp
qed

theorem split_is_first_half_in_elimination_order_witness:
  "1 < length (sr_steps (binarySearchOptimalSet exampleEnv (Some exampleValidator) defaultConfig
          exampleTree [''A'', ''B'', ''C'', ''D'', ''E''] [] [])) \<and>
   map rs_components (sr_steps (binarySearchOptimalSet exampleEnv (Some exampleValidator)
          defaultConfig exampleTree [''A'', ''B'', ''C'', ''D'', ''E''] [] [])) =
      [[''A'', ''B'', ''C''], [''D''], [''E'']] \<and>
   splitSchedule (iterationBudget (maxIterations defaultConfig) 0 [''A'', ''B'', ''C'', ''D'', ''E''])
      [''A'', ''B'', ''C'', ''D'', ''E''] =
      [[''A'', ''B'', ''C''], [''D''], [''E'']] \<and>
   maxIterations defaultConfig = Number (of_int 20) \<and>
   splitSchedule (nat 20) [''A'', ''B'', ''C'', ''D'', ''E''] =
      [[''A'', ''B'', ''C''], [''D''], [''E'']]"
proof -
  have h: "1 < length (sr_steps (binarySearchOptimalSet exampleEnv (Some exampleValidator)
          defaultConfig exampleTree [''A'', ''B'', ''C'', ''D'', ''E''] [] []))"
    by code_simp
  have s: "map rs_components (sr_steps (binarySearchOptimalSet exampleEnv (Some exampleValidator)
          defaultConfig exampleTree [''A'', ''B'', ''C'', ''D'', ''E''] [] [])) =
      [[''A'', ''B'', ''C''], [''D''], [''E'']]"
    by code_simp
  have m: "maxIterations defaultConfig = Number (of_int 20)"
    by (simp add: defaultConfig_def)
  have e: "map rs_components (sr_steps (binarySearchOptimalSet exampleEnv (Some exampleValidator)
          defaultConfig exampleTree [''A'', ''B'', ''C'', ''D'', ''E''] [] [])) =
      splitSchedule (iterationBudget (maxIterations defaultConfig) 0
          [''A'', ''B'', ''C'', ''D'', ''E'']) [''A'', ''B'', ''C'', ''D'', ''E'']"
    using split_is_first_half_in_elimination_order [OF h, of 20] by blast
  have w: "map rs_components (sr_steps (binarySearchOptimalSet exampleEnv (Some exampleValidator)
          defaultConfig exampleTree [''A'', ''B'', ''C'', ''D'', ''E''] [] [])) =
      splitSchedule (nat 20) [''A'', ''B'', ''C'', ''D'', ''E'']"
    using m split_is_first_half_in_elimination_order [OF h, of 20] by blast
  show ?thesis using h s e m w by metis
qed

section \<open>Bounded iteration\<close>

text \<open>
  C2 as stated: for every bound the outer loop runs at most \<^verbatim>\<open>maxIterations\<close> iterations,
  and at the bound the accumulated restored set is returned. With the bound 1.5 and two
  eliminated components the loop runs two iterations: the counter 1 is still below the
  bound.
\<close>

theorem fractional_bound_is_exceeded_counterexample:
  "maxIterations (mergeConfig (Some fractionalBound)) = Number (3 / 2) \<and>
   real (length (rr_recoverySteps (fst (performBinarySearchRecovery exampleEnv exampleTree
      (failedAlpha [''A'', ''B'']) (Some exampleValidator) (Some fractionalBound))))) > 3 / 2"
  by code_simp

text \<open>
  C2 as amended. The iteration bound is 20 unless the caller sets it. For every elimination
  list and every bound, the outer loop runs no more iterations (one logged step each) than
  there are whole numbers from 0 on below the bound: at most the bound rounded up when it
  is a finite number, at most the bound itself when it is a whole number, none when it is
  not a number. It calls the probe at most once per iteration. It ends when that many
  iterations have run or when the working set is used up. \<^verbatim>\<open>binarySearchOptimalSet\<close> then
  returns the restored list that the iterations it has logged accumulated, and the entry
  point returns that list with an empty error list, also when the bound was reached; only
  when the final metrics capture throws does it return empty sets, with the single error
  \<^verbatim>\<open>Recovery failed\<close>.
\<close>

theorem outer_loop_runs_within_its_bound:
  fixes env :: "'src env" and v config t failedPhase partialConfig eliminated deps
  defines "R \<equiv> binarySearchOptimalSet env v config t eliminated deps []"
    and "S \<equiv> binarySearchOptimalSet env v (mergeConfig partialConfig) t
              (ch_eliminatedComponents (pr_changes failedPhase))
              (ch_eliminatedDependencies (pr_changes failedPhase)) []"
    and "result \<equiv> fst (performBinarySearchRecovery env t failedPhase v partialConfig)"
  shows
   "maxIterations (mergeConfig None) = Number 20 \<and>
    length (sr_steps R) \<le> iterationBudget (maxIterations config) 0 eliminated \<and>
    (maxIterations config = Number r \<longrightarrow> length (sr_steps R) \<le> nat \<lceil>r\<rceil>) \<and>
    (maxIterations config = Number (of_int n) \<longrightarrow> length (sr_steps R) \<le> nat n) \<and>
    (maxIterations config \<in> {NaN, Undefined, MinusInfinity} \<longrightarrow> sr_steps R = []) \<and>
    sr_outerProbes R \<le> length (sr_steps R) \<and>
    (length (sr_steps R) = iterationBudget (maxIterations config) 0 eliminated \<or>
     concat (map rs_components (sr_steps R)) = eliminated) \<and>
    sr_restoredComponents R
      = fst (snd (runIterations env v config (t, [], [], 0) 0 (map rs_components (sr_steps R)))) \<and>
    ((ch_eliminatedComponents (pr_changes failedPhase) = [] \<and>
      ch_eliminatedDependencies (pr_changes failedPhase) = [] \<and>
      rr_errors result = [''No changes detected to recover from''] \<and>
      rr_restoredComponents result = [])
     \<or> (rr_errors result = [] \<and> rr_restoredComponents result = sr_restoredComponents S)
     \<or> (\<exists>msg. captureMetrics env (sr_tree S) = Inl msg \<and>
           rr_errors result = [''Recovery failed: '' @ msg] \<and>
           rr_restoredComponents result = []))"
proof (intro conjI)
  let ?B = "iterationBudget (maxIterations config) 0 eliminated"
  have sched: "map rs_components (sr_steps R) = splitSchedule ?B eliminated"
    unfolding R_def by (rule search_components)
  have len: "length (sr_steps R) = length (splitSchedule ?B eliminated)"
    unfolding R_def by (rule search_length)
  show "maxIterations (mergeConfig None) = Number 20"
    by (simp add: mergeConfig_def defaultConfig_def)
  show le: "length (sr_steps R) \<le> ?B"
    unfolding len by (rule splitSchedule_length)
  show "maxIterations config = Number r \<longrightarrow> length (sr_steps R) \<le> nat \<lceil>r\<rceil>"
    using le by (auto simp: budget_number)
  show "maxIterations config = Number (of_int n) \<longrightarrow> length (sr_steps R) \<le> nat n"
    using le by (auto simp: budget_whole)
  show "maxIterations config \<in> {NaN, Undefined, MinusInfinity} \<longrightarrow> sr_steps R = []"
    using le by (auto simp: iterationBudget_def)
  show "sr_outerProbes R \<le> length (sr_steps R)"
    unfolding R_def by (rule search_probes)
  have "length (splitSchedule ?B eliminated) = ?B \<or> concat (splitSchedule ?B eliminated) = eliminated"
    by (rule splitSchedule_halts)
  then show "length (sr_steps R) = ?B \<or> concat (map rs_components (sr_steps R)) = eliminated"
    unfolding sched len .
  show "sr_restoredComponents R
      = fst (snd (runIterations env v config (t, [], [], 0) 0 (map rs_components (sr_steps R))))"
    unfolding sched unfolding R_def
    by (simp add: search_run [of env v config t "[]" eliminated deps])
  show "(ch_eliminatedComponents (pr_changes failedPhase) = [] \<and>
      ch_eliminatedDependencies (pr_changes failedPhase) = [] \<and>
      rr_errors result = [''No changes detected to recover from''] \<and>
      rr_restoredComponents result = [])
     \<or> (rr_errors result = [] \<and> rr_restoredComponents result = sr_restoredComponents S)
     \<or> (\<exists>msg. captureMetrics env (sr_tree S) = Inl msg \<and>
           rr_errors result = [''Recovery failed: '' @ msg] \<and>
           rr_restoredComponents result = [])"
    unfolding result_def S_def by (rule perform_outcome)
qed

theorem outer_loop_runs_within_its_bound_witness:
  "length (sr_steps (binarySearchOptimalSet exampleEnv (Some exampleValidator)
            (mergeConfig (Some oneIteration)) exampleTree [''A'', ''B'', ''C''] [] [])) \<le> 1 \<and>
   maxIterations (mergeConfig (Some oneIteration)) = Number (of_int 1) \<and>
   rr_restoredComponents (fst (performBinarySearchRecovery exampleEnv exampleTree
          (failedAlpha [''A'', ''B'', ''C'']) (Some exampleValidator) (Some oneIteration)))
     = [''A'', ''A''] \<and>
   rr_errors (fst (performBinarySearchRecovery exampleEnv exampleTree
          (failedAlpha [''A'', ''B'', ''C'']) (Some exampleValidator) (Some oneIteration))) = []"
proof -
  have m: "maxIterations (mergeConfig (Some oneIteration)) = Number (of_int 1)"
    by (simp add: mergeConfig_def oneIteration_def)
  have r: "rr_restoredComponents (fst (performBinarySearchRecovery exampleEnv exampleTree
          (failedAlpha [''A'', ''B'', ''C'']) (Some exampleValidator) (Some oneIteration)))
     = [''A'', ''A'']"
    by code_simp
  have e: "rr_errors (fst (performBinarySearchRecovery exampleEnv exampleTree
          (failedAlpha [''A'', ''B'', ''C'']) (Some exampleValidator) (Some oneIteration))) = []"
    by code_simp
  have "length (sr_steps (binarySearchOptimalSet exampleEnv (Some exampleValidator)
            (mergeConfig (Some oneIteration)) exampleTree [''A'', ''B'', ''C''] [] [])) \<le> nat 1"
    using m outer_loop_runs_within_its_bound [where env = exampleEnv
        and v = "Some exampleValidator" and config = "mergeConfig (Some oneIteration)"
        and t = exampleTree and eliminated = "[''A'', ''B'', ''C'']" and deps = "[]" and n = 1]
    by blast
  then show ?thesis using m r e by simp
qed

section \<open>A failed restoration\<close>

text \<open>A backup that is missing when \<^verbatim>\<open>restoreComponents\<close> starts is still missing when
  its component's turn comes, so the call records it and reports failure.\<close>

lemma restoreOne_errors_grow:
  "e \<in> set (snd acc) \<Longrightarrow> e \<in> set (snd (restoreOne env acc x))"
  by (cases acc) (auto simp: restoreOne_def split: option.splits)

lemma restore_fold_errors_grow:
  "e \<in> set (snd acc) \<Longrightarrow> e \<in> set (snd (foldl (restoreOne env) acc cs))"
proof (induction cs arbitrary: acc)
  case Nil
  then show ?case by simp
next
  case (Cons x cs)
  have "e \<in> set (snd (restoreOne env acc x))"
    using Cons.prems by (rule restoreOne_errors_grow)
  from Cons.IH [OF this] show ?case by simp
qed

lemma restoreOne_no_new_backup:
  "CompFile d n e True \<notin> files (fst acc) \<Longrightarrow>
   CompFile d n e True \<notin> files (fst (restoreOne env acc x))"
proof (cases acc)
  case (Pair t errs)
  assume a: "CompFile d n e True \<notin> files (fst acc)"
  show ?thesis
  proof (cases "findUnusedComponent t x")
    case None
    then show ?thesis using a Pair by (simp add: restoreOne_def)
  next
    case (Some p)
    obtain d' n' e' u' where p: "p = CompFile d' n' e' u'" by (cases p) auto
    show ?thesis using a Pair Some p
      by (auto simp: restoreOne_def rename_def split: option.splits)
  qed
qed

lemma missing_backup_is_recorded:
  "c \<in> set cs \<Longrightarrow> findUnusedComponent (fst acc) c = None \<Longrightarrow>
   (''Component file not found: '' @ c) \<in> set (snd (foldl (restoreOne env) acc cs))"
proof (induction cs arbitrary: acc)
  case Nil
  then show ?case by simp
next
  case (Cons x cs)
  have none: "\<forall>p \<in> set (possiblePaths c True). p \<notin> files (fst acc)"
    using Cons.prems(2) by (simp add: findUnusedComponent_def find_None_iff)
  have keep: "findUnusedComponent (fst (restoreOne env acc x)) c = None"
    using none restoreOne_no_new_backup [of _ c _ acc env x]
    by (simp add: findUnusedComponent_def find_None_iff possiblePaths_def)
  show ?case
  proof (cases "x = c")
    case True
    have "(''Component file not found: '' @ c) \<in> set (snd (restoreOne env acc x))"
      using True Cons.prems(2) by (cases acc) (simp add: restoreOne_def)
    then show ?thesis by (simp add: restore_fold_errors_grow)
  next
    case False
    then have "c \<in> set cs" using Cons.prems(1) by simp
    from Cons.IH [OF this keep] show ?thesis by simp
  qed
qed

lemma missing_backup_fails_restore:
  "c \<in> set cs \<Longrightarrow> findUnusedComponent t c = None \<Longrightarrow>
   \<not> restoreSuccess (restoreComponents env t cs) \<and>
   (''Component file not found: '' @ c) \<in> set (snd (restoreComponents env t cs))"
  using missing_backup_is_recorded [of c cs "(t, [])" env]
  by (auto simp: restoreComponents_def restoreSuccess_def)

text \<open>
  C7. When restoring the test set fails, the iteration makes no probe, logs a step with
  success false and the restoration errors, leaves the restored list as it was, and the
  loop goes on with the remainder of the working set (or ends, if the bound is reached).
\<close>

theorem failed_restoration_drops_test_set:
  assumes "length workingSet > 0" and "counterBelow currentIteration (maxIterations config)"
    and "\<not> restoreSuccess (restoreComponents env t (take (halfSize workingSet) workingSet))"
  shows "snd (restoreComponents env t (take (halfSize workingSet) workingSet)) \<noteq> [] \<and>
     bsLoop env v config t workingSet restored currentIteration steps probes =
     (let testSet = take (halfSize workingSet) workingSet;
          remainingSet = drop (halfSize workingSet) workingSet;
          restoreResult = restoreComponents env t testSet;
          step = \<lparr>rs_iteration = currentIteration + 1, rs_action = Restore,
                  rs_components = testSet, rs_dependencies = [],
                  rs_success = False, rs_errors = snd restoreResult\<rparr>
      in if counterReached (currentIteration + 1) (maxIterations config)
         then (fst restoreResult, restored, steps @ [step], probes)
         else bsLoop env v config (fst restoreResult) remainingSet restored
                (currentIteration + 1) (steps @ [step]) probes)"
proof -
  let ?testSet = "take (halfSize workingSet) workingSet"
  let ?r = "restoreComponents env t ?testSet"
  let ?step = "\<lparr>rs_iteration = currentIteration + 1, rs_action = Restore,
                  rs_components = ?testSet, rs_dependencies = [],
                  rs_success = False, rs_errors = snd ?r\<rparr>"
  have it: "bsIteration env v config t restored (currentIteration + 1) ?testSet
            = (fst ?r, restored, ?step, 0)"
    using assms(3) by (simp add: bsIteration_def Let_def)
  have ne: "snd ?r \<noteq> []" using assms(3) by (simp add: restoreSuccess_def)
  show ?thesis
  proof (cases "counterReached (currentIteration + 1) (maxIterations config)")
    case True
    show ?thesis
      using ne bsLoop_last [OF assms(1,2) it True, of steps probes] True by (simp add: Let_def)
  next
    case False
    show ?thesis
      using ne bsLoop_next [OF assms(1,2) it False, of steps probes] False by (simp add: Let_def)
  qed
qed

theorem failed_restoration_drops_test_set_witness:
  "\<not> restoreSuccess (restoreComponents exampleEnv exampleTree (take (halfSize [''C'', ''A'']) [''C'', ''A''])) \<and>
   bsLoop exampleEnv (Some exampleValidator) defaultConfig exampleTree [''C'', ''A''] [] 0 [] 0 =
     (\<lparr>files = {CompFile UiDir ''A'' Tsx False, CompFile UiDir ''B'' Tsx True}, sources = ()\<rparr>,
      [''A''],
      [\<lparr>rs_iteration = 1, rs_action = Restore, rs_components = [''C''], rs_dependencies = [],
         rs_success = False, rs_errors = [''Component file not found: C'']\<rparr>,
       \<lparr>rs_iteration = 2, rs_action = Restore, rs_components = [''A''], rs_dependencies = [],
         rs_success = True, rs_errors = []\<rparr>],
      1)"
proof -
  have h1: "length [''C'', ''A''] > 0" by simp
  have h2: "counterBelow 0 (maxIterations defaultConfig)"
    by (simp add: defaultConfig_def counterBelow_def)
  have h3: "\<not> restoreSuccess (restoreComponents exampleEnv exampleTree
              (take (halfSize [''C'', ''A'']) [''C'', ''A'']))"
    by code_simp
  have run: "bsLoop exampleEnv (Some exampleValidator) defaultConfig exampleTree [''C'', ''A''] [] 0 [] 0 =
     (\<lparr>files = {CompFile UiDir ''A'' Tsx False, CompFile UiDir ''B'' Tsx True}, sources = ()\<rparr>,
      [''A''],
      [\<lparr>rs_iteration = 1, rs_action = Restore, rs_components = [''C''], rs_dependencies = [],
         rs_success = False, rs_errors = [''Component file not found: C'']\<rparr>,
       \<lparr>rs_iteration = 2, rs_action = Restore, rs_components = [''A''], rs_dependencies = [],
         rs_success = True, rs_errors = []\<rparr>],
      1)"
    by code_simp
  have used: "snd (restoreComponents exampleEnv exampleTree
                (take (halfSize [''C'', ''A'']) [''C'', ''A''])) \<noteq> []"
    using failed_restoration_drops_test_set [OF h1 h2 h3] by (rule conjunct1)
  show ?thesis using h3 run used by simp
qed

lemma optimizeLoop_done:
  "\<not> i < length (cfg_phases config) \<Longrightarrow>
   optimizeLoop oenv config i results t = (None, config, results, t)"
  by (subst optimizeLoop.simps) simp

lemma optimizeLoop_throw:
  "i < length (cfg_phases config) \<Longrightarrow>
   executePhase oenv (cfg_phases config ! i) t config results = Inl msg \<Longrightarrow>
   optimizeLoop oenv config i results t = (Some msg, config, results, t)"
  by (subst optimizeLoop.simps) simp

lemma optimizeLoop_step:
  "i < length (cfg_phases config) \<Longrightarrow>
   executePhase oenv (cfg_phases config ! i) t config results = Inr (r, t1) \<Longrightarrow>
   optimizeLoop oenv config i results t =
     (if cfg_phases config ! i = Alpha \<and> \<not> pr_success r \<and> Charlie \<notin> set (cfg_phases config)
      then optimizeLoop oenv (config\<lparr>cfg_phases := cfg_phases config @ [Charlie]\<rparr>)
             (i + 1) (results @ [r]) t1
      else if cfg_phases config ! i = Beta \<and> alphaFailed (results @ [r])
      then optimizeLoop oenv config (i + 1) (results @ [r]) t1
      else if \<not> pr_success r \<and> cfg_mode config \<noteq> RecoveryMode \<and> cfg_phases config ! i \<noteq> Alpha
      then (None, config, results @ [r], t1)
      else optimizeLoop oenv config (i + 1) (results @ [r]) t1)"
  by (subst optimizeLoop.simps) simp

lemma executePhase_phase:
  "executePhase oenv ph t config results = Inr (r, t1) \<Longrightarrow> pr_phase r = ph"
  by (cases ph)
     (auto simp: executePhase_def executeZuluPhase_def executeAlphaPhase_def
        executeBetaPhase_def executeCharliePhase_def charlieNotNeeded_def betaSkipped_def
        split: option.splits sum.splits prod.splits if_splits)

lemma alphaFailed_snoc:
  "alphaFailed (results @ [r]) = (alphaFailed results \<or> (pr_phase r = Alpha \<and> \<not> pr_success r))"
  by (auto simp: alphaFailed_def list_ex_iff)

lemma optimizeLoop_phases:
  assumes "optimizeLoop oenv config i results t = (thrown, config', results', t')"
    and "alphaFailed results \<longrightarrow> Charlie \<in> set (cfg_phases config)"
  shows "(alphaFailed results' \<longrightarrow> Charlie \<in> set (cfg_phases config')) \<and>
         (alphaFailed results \<longrightarrow> alphaFailed results') \<and>
         (cfg_phases config' = cfg_phases config \<or>
          (Charlie \<notin> set (cfg_phases config) \<and> alphaFailed results' \<and>
           cfg_phases config' = cfg_phases config @ [Charlie]))"
  using assms
proof (induction oenv config i results t rule: optimizeLoop.induct)
  case (1 oenv config i results t)
  show ?case
  proof (cases "i < length (cfg_phases config)")
    case False
    then show ?thesis using "1.prems" optimizeLoop_done [OF False, of oenv results t] by simp
  next
    case True
    show ?thesis
    proof (cases "executePhase oenv (cfg_phases config ! i) t config results")
      case (Inl msg)
      then show ?thesis
        using "1.prems" optimizeLoop_throw [OF True Inl] by simp
    next
      case (Inr p)
      obtain r t1 where p: "p = (r, t1)" by (cases p) auto
      have ex: "executePhase oenv (cfg_phases config ! i) t config results = Inr (r, t1)"
        using Inr p by simp
      have ph: "pr_phase r = cfg_phases config ! i" using executePhase_phase [OF ex] .
      note step = optimizeLoop_step [OF True ex]
      consider (app) "cfg_phases config ! i = Alpha \<and> \<not> pr_success r \<and> Charlie \<notin> set (cfg_phases config)"
        | (beta) "\<not> (cfg_phases config ! i = Alpha \<and> \<not> pr_success r \<and> Charlie \<notin> set (cfg_phases config))"
            "cfg_phases config ! i = Beta \<and> alphaFailed (results @ [r])"
        | (brk) "\<not> (cfg_phases config ! i = Alpha \<and> \<not> pr_success r \<and> Charlie \<notin> set (cfg_phases config))"
            "\<not> (cfg_phases config ! i = Beta \<and> alphaFailed (results @ [r]))"
            "\<not> pr_success r \<and> cfg_mode config \<noteq> RecoveryMode \<and> cfg_phases config ! i \<noteq> Alpha"
        | (go) "\<not> (cfg_phases config ! i = Alpha \<and> \<not> pr_success r \<and> Charlie \<notin> set (cfg_phases config))"
            "\<not> (cfg_phases config ! i = Beta \<and> alphaFailed (results @ [r]))"
            "\<not> (\<not> pr_success r \<and> cfg_mode config \<noteq> RecoveryMode \<and> cfg_phases config ! i \<noteq> Alpha)"
        by blast
      then show ?thesis
      proof cases
        case app
        let ?c = "config\<lparr>cfg_phases := cfg_phases config @ [Charlie]\<rparr>"
        have run: "optimizeLoop oenv ?c (i + 1) (results @ [r]) t1 = (thrown, config', results', t')"
          using "1.prems"(1) step app by simp
        have inv: "alphaFailed (results @ [r]) \<longrightarrow> Charlie \<in> set (cfg_phases ?c)" by simp
        have af: "alphaFailed (results @ [r])" using app ph by (simp add: alphaFailed_snoc)
        from "1.IH"(1) [OF True Inr p [symmetric] app run inv] af app
        show ?thesis by (auto simp: alphaFailed_snoc)
      next
        case beta
        have run: "optimizeLoop oenv config (i + 1) (results @ [r]) t1 = (thrown, config', results', t')"
          using "1.prems"(1) step beta by simp
        have inv: "alphaFailed (results @ [r]) \<longrightarrow> Charlie \<in> set (cfg_phases config)"
          using "1.prems"(2) beta ph by (auto simp: alphaFailed_snoc)
        from "1.IH"(2) [OF True Inr p [symmetric] beta run inv]
        show ?thesis by (auto simp: alphaFailed_snoc)
      next
        case brk
        have "(thrown, config', results', t') = (None, config, results @ [r], t1)"
          using "1.prems"(1) step brk by simp
        then show ?thesis using "1.prems"(2) brk ph by (auto simp: alphaFailed_snoc)
      next
        case go
        have run: "optimizeLoop oenv config (i + 1) (results @ [r]) t1 = (thrown, config', results', t')"
          using "1.prems"(1) step go by simp
        have inv: "alphaFailed (results @ [r]) \<longrightarrow> Charlie \<in> set (cfg_phases config)"
          using "1.prems"(2) go(1) ph by (auto simp: alphaFailed_snoc)
        from "1.IH"(3) [OF True Inr p [symmetric] go run inv]
        show ?thesis by (auto simp: alphaFailed_snoc)
      qed
    qed
  qed
qed

lemma findPhase_failed_alpha:
  "findPhase Alpha results = Some a \<Longrightarrow> \<not> pr_success a \<Longrightarrow> alphaFailed results"
  by (auto simp: findPhase_def alphaFailed_def list_ex_iff find_Some_iff)

section \<open>Phase transitions\<close>

text \<open>
  The transitions as the phases read the results. In a run of the orchestrator, a failed
  alpha result puts charlie in the phase list: when charlie was not configured and an
  alpha failed, the final phase list is the configured one with charlie appended, and when
  no alpha failed the list is unchanged. The beta and charlie phases look at the first
  alpha result among the previous phases: when that one failed, beta returns the
  \<^verbatim>\<open>BETA skipped\<close> result, leaves the tree as it is whatever the refinement would do, and the
  loop goes on to the next phase; when that one succeeded, charlie restores nothing,
  returns success with empty change lists and leaves the tree as it is.
\<close>

lemma transitions_on_first_alpha:
  "(optimizeLoop oenv config 0 [] t = (thrown, config', results', t') \<longrightarrow>
      (alphaFailed results' \<longrightarrow> Charlie \<in> set (cfg_phases config')) \<and>
      (Charlie \<notin> set (cfg_phases config) \<and> alphaFailed results' \<longrightarrow>
         cfg_phases config' = cfg_phases config @ [Charlie]) \<and>
      (\<not> alphaFailed results' \<longrightarrow> cfg_phases config' = cfg_phases config)) \<and>
   (findPhase Alpha beforeBeta = Some alphaResult \<and> \<not> pr_success alphaResult \<longrightarrow>
      executeBetaPhase oenv t config beforeBeta = Inr (betaSkipped (pr_metrics alphaResult), t) \<and>
      (i < length (cfg_phases config) \<and> cfg_phases config ! i = Beta \<longrightarrow>
         optimizeLoop oenv config i beforeBeta t =
         optimizeLoop oenv config (i + 1) (beforeBeta @ [betaSkipped (pr_metrics alphaResult)]) t)) \<and>
   (findPhase Alpha beforeCharlie = Some alphaPhase \<and> pr_success alphaPhase \<longrightarrow>
      executeCharliePhase oenv t config beforeCharlie =
        Inr (\<lparr>pr_phase = Charlie, pr_success = True,
              pr_metrics = pr_metrics (last beforeCharlie),
              pr_changes = \<lparr>ch_eliminatedComponents = [], ch_eliminatedDependencies = [],
                            ch_restoredComponents = []\<rparr>,
              pr_errors = [], pr_performance = None\<rparr>, t))"
proof (intro conjI impI)
  assume run: "optimizeLoop oenv config 0 [] t = (thrown, config', results', t')"
  have inv: "alphaFailed [] \<longrightarrow> Charlie \<in> set (cfg_phases config)"
    by (simp add: alphaFailed_def)
  note ph = optimizeLoop_phases [OF run inv]
  show "Charlie \<in> set (cfg_phases config')" if "alphaFailed results'"
    using ph that by blast
  show "cfg_phases config' = cfg_phases config @ [Charlie]"
    if "Charlie \<notin> set (cfg_phases config) \<and> alphaFailed results'"
    using ph that by metis
  show "cfg_phases config' = cfg_phases config" if "\<not> alphaFailed results'"
    using ph that by blast
next
  assume a: "findPhase Alpha beforeBeta = Some alphaResult \<and> \<not> pr_success alphaResult"
  then show skip: "executeBetaPhase oenv t config beforeBeta
              = Inr (betaSkipped (pr_metrics alphaResult), t)"
    by (simp add: executeBetaPhase_def)
  assume b: "i < length (cfg_phases config) \<and> cfg_phases config ! i = Beta"
  have ex: "executePhase oenv (cfg_phases config ! i) t config beforeBeta
            = Inr (betaSkipped (pr_metrics alphaResult), t)"
    using skip b by (simp add: executePhase_def)
  have af: "alphaFailed (beforeBeta @ [betaSkipped (pr_metrics alphaResult)])"
    using findPhase_failed_alpha a by (simp add: alphaFailed_snoc)
  show "optimizeLoop oenv config i beforeBeta t =
        optimizeLoop oenv config (i + 1) (beforeBeta @ [betaSkipped (pr_metrics alphaResult)]) t"
    using optimizeLoop_step [OF _ ex] b af by simp
next
  assume a: "findPhase Alpha beforeCharlie = Some alphaPhase \<and> pr_success alphaPhase"
  then have "beforeCharlie \<noteq> []" by (auto simp: findPhase_def)
  then show "executeCharliePhase oenv t config beforeCharlie =
        Inr (\<lparr>pr_phase = Charlie, pr_success = True,
              pr_metrics = pr_metrics (last beforeCharlie),
              pr_changes = \<lparr>ch_eliminatedComponents = [], ch_eliminatedDependencies = [],
                            ch_restoredComponents = []\<rparr>,
              pr_errors = [], pr_performance = None\<rparr>, t)"
    using a by (simp add: executeCharliePhase_def charlieNotNeeded_def noChanges_def)
qed

lemma transitions_on_first_alpha_example:
  "alphaFailed (fst (snd (snd (optimizeLoop exampleOrchestrator exampleConfig 0 [] exampleRestoredTree)))) \<and>
   Charlie \<notin> set (cfg_phases exampleConfig) \<and>
   cfg_phases (fst (snd (optimizeLoop exampleOrchestrator exampleConfig 0 [] exampleRestoredTree)))
     = [Zulu, Alpha, Beta, Charlie] \<and>
   findPhase Alpha [passedPhase Zulu, failedAlpha [''A'', ''B'']] = Some (failedAlpha [''A'', ''B'']) \<and>
   \<not> pr_success (failedAlpha [''A'', ''B'']) \<and>
   executeBetaPhase exampleOrchestrator exampleTree exampleConfig
       [passedPhase Zulu, failedAlpha [''A'', ''B'']]
     = Inr (betaSkipped (pr_metrics (failedAlpha [''A'', ''B''])), exampleTree) \<and>
   findPhase Alpha [passedPhase Zulu, passedPhase Alpha] = Some (passedPhase Alpha) \<and>
   pr_success (passedPhase Alpha) \<and>
   executeCharliePhase exampleOrchestrator exampleRestoredTree exampleConfig
       [passedPhase Zulu, passedPhase Alpha]
     = Inr (\<lparr>pr_phase = Charlie, pr_success = True,
              pr_metrics = pr_metrics (last [passedPhase Zulu, passedPhase Alpha]),
              pr_changes = \<lparr>ch_eliminatedComponents = [], ch_eliminatedDependencies = [],
                            ch_restoredComponents = []\<rparr>,
              pr_errors = [], pr_performance = None\<rparr>, exampleRestoredTree)"
proof -
  let ?X = "optimizeLoop exampleOrchestrator exampleConfig 0 [] exampleRestoredTree"
  have run: "?X = (fst ?X, fst (snd ?X), fst (snd (snd ?X)), snd (snd (snd ?X)))" by simp
  have h1: "alphaFailed (fst (snd (snd ?X)))" by code_simp
  have h2: "Charlie \<notin> set (cfg_phases exampleConfig)" by code_simp
  have h3: "findPhase Alpha [passedPhase Zulu, failedAlpha [''A'', ''B'']]
              = Some (failedAlpha [''A'', ''B'']) \<and> \<not> pr_success (failedAlpha [''A'', ''B''])"
    by code_simp
  have h4: "findPhase Alpha [passedPhase Zulu, passedPhase Alpha] = Some (passedPhase Alpha)
              \<and> pr_success (passedPhase Alpha)"
    by code_simp
  have c: "cfg_phases exampleConfig @ [Charlie] = [Zulu, Alpha, Beta, Charlie]"
    by (simp add: exampleConfig_def)
  note T1 = transitions_on_first_alpha [where oenv = exampleOrchestrator and config = exampleConfig
      and t = exampleRestoredTree and thrown = "fst ?X" and config' = "fst (snd ?X)"
      and results' = "fst (snd (snd ?X))" and t' = "snd (snd (snd ?X))"
      and beforeBeta = "[]" and beforeCharlie = "[passedPhase Zulu, passedPhase Alpha]"
      and alphaPhase = "passedPhase Alpha"]
  note T2 = transitions_on_first_alpha [where oenv = exampleOrchestrator and config = exampleConfig
      and t = exampleTree
      and beforeBeta = "[passedPhase Zulu, failedAlpha [''A'', ''B'']]"
      and alphaResult = "failedAlpha [''A'', ''B'']" and beforeCharlie = "[]"]
  have a: "cfg_phases (fst (snd ?X)) = cfg_phases exampleConfig @ [Charlie]"
    using T1 run h1 h2 by blast
  have b: "executeCharliePhase exampleOrchestrator exampleRestoredTree exampleConfig
       [passedPhase Zulu, passedPhase Alpha]
     = Inr (\<lparr>pr_phase = Charlie, pr_success = True,
              pr_metrics = pr_metrics (last [passedPhase Zulu, passedPhase Alpha]),
              pr_changes = \<lparr>ch_eliminatedComponents = [], ch_eliminatedDependencies = [],
                            ch_restoredComponents = []\<rparr>,
              pr_errors = [], pr_performance = None\<rparr>, exampleRestoredTree)"
    using T1 h4 by blast
  have d: "executeBetaPhase exampleOrchestrator exampleTree exampleConfig
       [passedPhase Zulu, failedAlpha [''A'', ''B'']]
     = Inr (betaSkipped (pr_metrics (failedAlpha [''A'', ''B''])), exampleTree)"
    using T2 h3 by blast
  show ?thesis using h1 h2 h3 h4 a b c d by simp
qed

text \<open>
  C6. When the elimination fails and the recovery is not in the configured phase list, the
  recovery is appended; the refinement is skipped entirely whenever the elimination
  failed; the recovery entered after a successful elimination restores nothing. The loop
  of \<^verbatim>\<open>optimize\<close> tests whether any alpha result failed, but \<^verbatim>\<open>executeBetaPhase\<close> and
  \<^verbatim>\<open>executeCharliePhase\<close> read the first alpha result only. With the phase list zulu, alpha,
  alpha, beta, of which the first elimination succeeds and the second fails: an alpha
  failed and charlie is appended, yet beta is not skipped, its result is that of the
  refinement body with the change it made; and charlie, reading the first alpha, restores
  nothing and reports success, on a tree that still fails the probe.
\<close>

theorem refinement_runs_after_failed_second_elimination:
  "map pr_phase (oo_phases (optimize repeatedAlphaOrchestrator exampleRestoredTree repeatedAlphaConfig))
     = [Zulu, Alpha, Alpha, Beta, Charlie] \<and>
   map pr_success (oo_phases (optimize repeatedAlphaOrchestrator exampleRestoredTree repeatedAlphaConfig))
     = [True, True, False, True, True] \<and>
   alphaFailed (oo_phases (optimize repeatedAlphaOrchestrator exampleRestoredTree repeatedAlphaConfig)) \<and>
   oo_configPhases (optimize repeatedAlphaOrchestrator exampleRestoredTree repeatedAlphaConfig)
     = [Zulu, Alpha, Alpha, Beta, Charlie] \<and>
   oo_phases (optimize repeatedAlphaOrchestrator exampleRestoredTree repeatedAlphaConfig) ! 3
     = refinedBeta \<and>
   pr_errors (oo_phases (optimize repeatedAlphaOrchestrator exampleRestoredTree repeatedAlphaConfig) ! 3)
     \<noteq> [''BETA skipped: ALPHA phase failed''] \<and>
   ch_eliminatedDependencies (pr_changes
       (oo_phases (optimize repeatedAlphaOrchestrator exampleRestoredTree repeatedAlphaConfig) ! 3))
     = [''lodash''] \<and>
   pr_changes (oo_phases (optimize repeatedAlphaOrchestrator exampleRestoredTree repeatedAlphaConfig) ! 4)
     = noChanges \<and>
   oo_tree (optimize repeatedAlphaOrchestrator exampleRestoredTree repeatedAlphaConfig) = exampleTree \<and>
   \<not> testCurrentState exampleEnv (Some exampleValidator) (mergeConfig None) exampleTree"
  by code_simp

lemma candidates_snoc:
  "identifyBasicEliminationCandidates (imported @ [entry]) rendered =
   candidateStep rendered (identifyBasicEliminationCandidates imported rendered) entry"
  by (simp add: identifyBasicEliminationCandidates_def)

section \<open>The render records of the scan\<close>

lemma map_of_mapSet: "map_of (mapSet k v m) = (map_of m)(k \<mapsto> v)"
  by (induction k v m rule: mapSet.induct) (auto simp: fun_eq_iff)

text \<open>The record of \<open>c\<close> in a map of render records counts \<open>n\<close> renders in the files
  \<open>fs\<close>; no record is no render.\<close>

definition recordCounts ::
  "(string, componentRenderInfo) jsMap \<Rightarrow> string \<Rightarrow> nat \<Rightarrow> string set \<Rightarrow> bool" where
  "recordCounts m c n fs =
     (case map_of m c of
        None \<Rightarrow> n = 0 \<and> fs = {}
      | Some info \<Rightarrow> cr_renderCount info = int n \<and> 0 < n
          \<and> set (cr_filePaths info) = fs \<and> distinct (cr_filePaths info)
          \<and> length (cr_filePaths info) \<le> n)"

lemma recordRender_counts:
  assumes "recordCounts m c n fs" and "c \<notin> set htmlTags"
  shows "recordCounts (recordRender f m x) c (n + (if x = c then 1 else 0))
           (if x = c then insert f fs else fs)"
proof (cases "x = c")
  case True
  show ?thesis
  proof (cases "map_of m c")
    case None
    then show ?thesis using assms True
      by (simp add: recordRender_def recordCounts_def map_of_mapSet)
  next
    case (Some info)
    then show ?thesis using assms True
      by (auto simp: recordRender_def recordCounts_def map_of_mapSet)
  qed
next
  case False
  then have "map_of (recordRender f m x) c = map_of m c"
    by (auto simp: recordRender_def map_of_mapSet split: option.splits)
  then show ?thesis using assms(1) False by (simp add: recordCounts_def)
qed

lemma scanFile_counts:
  assumes "recordCounts m c n fs" and "c \<notin> set htmlTags"
  shows "recordCounts (foldl (recordRender f) m tags) c (n + count_list tags c)
           (if c \<in> set tags then insert f fs else fs)"
  using assms(1)
proof (induction tags arbitrary: m n fs)
  case Nil
  then show ?case by simp
next
  case (Cons x tags)
  have step: "recordCounts (recordRender f m x) c (n + (if x = c then 1 else 0))
           (if x = c then insert f fs else fs)"
    using recordRender_counts [OF Cons.prems assms(2)] .
  have eq: "(if c \<in> set tags then insert f (if x = c then insert f fs else fs)
             else (if x = c then insert f fs else fs))
            = (if c \<in> set (x # tags) then insert f fs else fs)"
    by auto
  have cnt: "n + (if x = c then 1 else 0) + count_list tags c = n + count_list (x # tags) c"
    by simp
  have "recordCounts (foldl (recordRender f) (recordRender f m x) tags) c
          (n + (if x = c then 1 else 0) + count_list tags c)
          (if c \<in> set tags then insert f (if x = c then insert f fs else fs)
             else (if x = c then insert f fs else fs))"
    using Cons.IH [OF step] .
  then show ?case unfolding eq cnt by simp
qed

lemma scan_counts_from:
  assumes "recordCounts m c n fs" and "c \<notin> set htmlTags"
  shows "recordCounts
           (foldl (\<lambda>renderedComponents (filePath, tags).
                     foldl (recordRender filePath) renderedComponents tags) m sourceFiles)
           c (n + occurrences sourceFiles c) (fs \<union> filesRendering sourceFiles c)"
  using assms(1)
proof (induction sourceFiles arbitrary: m n fs)
  case Nil
  then show ?case by (simp add: occurrences_def filesRendering_def)
next
  case (Cons entry sourceFiles)
  obtain f tags where entry: "entry = (f, tags)" by (cases entry) auto
  have step: "recordCounts (foldl (recordRender f) m tags) c (n + count_list tags c)
           (if c \<in> set tags then insert f fs else fs)"
    using scanFile_counts [OF Cons.prems assms(2)] .
  have fr: "(if c \<in> set tags then insert f fs else fs) \<union> filesRendering sourceFiles c
            = fs \<union> filesRendering (entry # sourceFiles) c"
    unfolding entry filesRendering_def by auto
  have oc: "n + count_list tags c + occurrences sourceFiles c
            = n + occurrences (entry # sourceFiles) c"
    by (simp add: entry occurrences_def)
  have "recordCounts
          (foldl (\<lambda>renderedComponents (filePath, tags).
                     foldl (recordRender filePath) renderedComponents tags)
             (foldl (recordRender f) m tags) sourceFiles)
          c (n + count_list tags c + occurrences sourceFiles c)
          ((if c \<in> set tags then insert f fs else fs) \<union> filesRendering sourceFiles c)"
    using Cons.IH [OF step] .
  then show ?case unfolding fr oc by (simp add: entry)
qed

text \<open>The scan records, for a name outside its list of HTML and SVG tags, the number of
  tags matched and the files they were matched in; a name of that list is never
  recorded.\<close>

lemma scan_counts:
  "c \<notin> set htmlTags \<Longrightarrow>
   recordCounts (scanJSXUsage sourceFiles) c (occurrences sourceFiles c) (filesRendering sourceFiles c)"
  using scan_counts_from [of "[]" c 0 "{}" sourceFiles]
  by (simp add: scanJSXUsage_def recordCounts_def)

lemma candidates_mem:
  "c \<in> set (identifyBasicEliminationCandidates imported rendered) \<longleftrightarrow>
      c \<in> fst ` set imported \<and>
      (map_of rendered c = None \<or>
       (\<exists>renderInfo. map_of rendered c = Some renderInfo \<and>
          cr_renderCount renderInfo \<le> 1 \<and> length (cr_filePaths renderInfo) \<le> 1))"
proof (induction imported rule: rev_induct)
  case Nil
  show ?case by (simp add: identifyBasicEliminationCandidates_def)
next
  case (snoc entry imported)
  obtain n i where e: "entry = (n, i)" by (cases entry) auto
  show ?case
    unfolding candidates_snoc e using snoc.IH
    by (cases "map_of rendered n") (auto simp: candidateStep_def)
qed

text \<open>On the records of a scan: a component whose name is not in the scan's list of HTML
  and SVG tags is a candidate exactly when it is imported and at most one tag of it was
  matched in all the files.\<close>

lemma scanned_candidates:
  assumes "c \<notin> set htmlTags"
  shows "c \<in> set (identifyBasicEliminationCandidates imported (scanJSXUsage sourceFiles)) \<longleftrightarrow>
         c \<in> fst ` set imported \<and> occurrences sourceFiles c \<le> 1"
  using scan_counts [OF assms, of sourceFiles]
  unfolding candidates_mem recordCounts_def
  by (cases "map_of (scanJSXUsage sourceFiles) c") auto

section \<open>Elimination candidates\<close>

text \<open>
  C8. A component is an elimination candidate of the usage classifier exactly when it is
  imported and either has no render record (never rendered) or its record counts at most
  one render in at most one file; a component whose record counts more than one render,
  or more than one file, is not a candidate.
\<close>

theorem candidate_iff_unrendered_or_rare:
  "(c \<in> set (identifyBasicEliminationCandidates imported rendered) \<longleftrightarrow>
      c \<in> fst ` set imported \<and>
      (map_of rendered c = None \<or>
       (\<exists>renderInfo. map_of rendered c = Some renderInfo \<and>
          cr_renderCount renderInfo \<le> 1 \<and> length (cr_filePaths renderInfo) \<le> 1))) \<and>
   (map_of rendered c = Some info \<and> (cr_renderCount info > 1 \<or> length (cr_filePaths info) > 1) \<longrightarrow>
      c \<notin> set (identifyBasicEliminationCandidates imported rendered))"
  using candidates_mem [of c imported rendered] by auto

theorem candidate_iff_unrendered_or_rare_witness:
  "identifyBasicEliminationCandidates exampleImports exampleRendered = [''Badge'', ''Card''] \<and>
   ''Button'' \<notin> set (identifyBasicEliminationCandidates exampleImports exampleRendered) \<and>
   map_of exampleRendered ''Button'' =
     Some \<lparr>cr_componentName = ''Button'', cr_renderCount = 2,
           cr_filePaths = [''client/src/App.tsx''], cr_jsxUsages = [''<Button'', ''<Button'']\<rparr>"
proof -
  have m: "map_of exampleRendered ''Button'' =
     Some \<lparr>cr_componentName = ''Button'', cr_renderCount = 2,
           cr_filePaths = [''client/src/App.tsx''], cr_jsxUsages = [''<Button'', ''<Button'']\<rparr>"
    by code_simp
  have c: "identifyBasicEliminationCandidates exampleImports exampleRendered = [''Badge'', ''Card'']"
    by code_simp
  have "''Button'' \<notin> set (identifyBasicEliminationCandidates exampleImports exampleRendered)"
    using candidate_iff_unrendered_or_rare [of "''Button''" exampleImports exampleRendered
        "\<lparr>cr_componentName = ''Button'', cr_renderCount = 2,
           cr_filePaths = [''client/src/App.tsx''], cr_jsxUsages = [''<Button'', ''<Button'']\<rparr>"] m
    by simp
  then show ?thesis using m c by simp
qed

lemma map_of_mapSet_other: "k' \<noteq> k \<Longrightarrow> map_of (mapSet k v m) k' = map_of m k'"
  by (induction k v m rule: mapSet.induct) auto

section \<open>The protected set\<close>

text \<open>A file whose base name is \<^verbatim>\<open>App\<close>, \<^verbatim>\<open>main\<close> or \<^verbatim>\<open>index\<close> is neither deleted nor
  backed up by the scan.\<close>

lemma critical_components_survive:
  assumes "cp_base p \<in> set criticalComponents"
    and "scanAndDeleteAllComponents parse componentFiles st = Inr st'"
  shows "liveFiles st' p = liveFiles st p \<and>
         map_of (deletedComponents st') (cp_base p) = map_of (deletedComponents st) (cp_base p)"
  using assms(2)
proof (induction parse componentFiles st rule: scanAndDeleteAllComponents.induct)
  case (1 parse st)
  then show ?case by simp
next
  case (2 parse filePath componentFiles st)
  show ?case
  proof (cases "cp_base filePath \<notin> set criticalComponents")
    case False
    then show ?thesis using "2.IH"(2) "2.prems" by simp
  next
    case True
    then have ne: "filePath \<noteq> p" "cp_base p \<noteq> cp_base filePath" using assms(1) by auto
    obtain content where c: "liveFiles st filePath = Some content"
      using "2.prems" True by (cases "liveFiles st filePath") auto
    let ?st1 = "st\<lparr>deletedComponents := mapSet (cp_base filePath) content (deletedComponents st),
                    componentPaths := mapSet (cp_base filePath) filePath (componentPaths st),
                    componentExportMap :=
                      mapSet (cp_base filePath) (extractExports (parseContent parse content))
                        (componentExportMap st),
                    liveFiles := (liveFiles st)(filePath := None)\<rparr>"
    have run: "scanAndDeleteAllComponents parse componentFiles ?st1 = Inr st'"
      using "2.prems" True c by simp
    from "2.IH"(1) [OF True c run] show ?thesis
      using ne by (simp add: map_of_mapSet_other)
  qed
qed

text \<open>
  C5. The elimination engine never deletes or backs up a component whose name is an entry
  point or is in the preserve list the caller supplies. The scan tests the base name
  against its own fixed set \<^verbatim>\<open>App\<close>, \<^verbatim>\<open>main\<close>, \<^verbatim>\<open>index\<close> and is never given the
  configuration: with \<^verbatim>\<open>Header\<close> in the preserve list, \<^verbatim>\<open>Header.tsx\<close> is stored in the
  backup of deleted components and its file is replaced by a stub.
\<close>

theorem preserve_list_is_not_consulted:
  "''Header'' \<in> set (preserveList exampleNuclearConfig) \<and>
   (case nuclearElimination exampleNuclearConfig exampleParse exampleComponentFiles
           exampleNuclearState of
      Inl msg \<Rightarrow> False
    | Inr st \<Rightarrow>
        map_of (deletedComponents st) ''Header'' = Some (SourceText headerSource) \<and>
        liveFiles st (componentAt ''Header'') =
          Some (StubFile \<lparr>sm_consts = [(''Header'', ''Header'')],
                          sm_namedExports = [''Header''], sm_defaultExport = None\<rparr>) \<and>
        liveFiles st (componentAt ''App'') = Some (SourceText appSource))"
  by code_simp

section \<open>Stubs of the shapes that are read\<close>

lemma set_setAdd: "set (setAdd x xs) = insert x (set xs)"
  by (auto simp: setAdd_def)

lemma set_addDeclarators:
  "list_all handledDeclarator ds \<Longrightarrow>
   set (foldl addDeclarator acc ds) = set acc \<union> set (concat (map boundNames ds))"
proof (induction ds arbitrary: acc)
  case Nil
  show ?case by simp
next
  case (Cons d ds)
  obtain n where d: "d = Identifier n" using Cons.prems by (cases d) auto
  have "list_all handledDeclarator ds" using Cons.prems by simp
  from Cons.IH [OF this, of "addDeclarator acc d"] show ?case
    by (auto simp: d addDeclarator_def set_setAdd)
qed

lemma set_addSpecifiers:
  "list_all handledSpecifier specs \<Longrightarrow>
   set (foldl addSpecifier acc specs) = set acc \<union> set (map specifierName specs)"
proof (induction specs arbitrary: acc)
  case Nil
  show ?case by simp
next
  case (Cons sp specs)
  obtain l e where sp: "sp = ExportSpecifier l e" using Cons.prems by (cases sp) auto
  have rest: "list_all handledSpecifier specs" using Cons.prems by simp
  have one: "set (addSpecifier acc sp) = insert (specifierName sp) (set acc)"
    by (cases e) (simp_all add: sp addSpecifier_def set_setAdd)
  from Cons.IH [OF rest, of "addSpecifier acc sp"] show ?case using one by auto
qed

lemma set_visitStatement:
  assumes "handledStatement stmt"
  shows "set (visitStatement acc stmt) = set acc \<union> set (statementExports stmt)"
proof (cases stmt)
  case (ExportNamedDeclaration decl specs)
  have specs: "list_all handledSpecifier specs" using assms ExportNamedDeclaration by simp
  show ?thesis
  proof (cases decl)
    case None
    then show ?thesis
      using ExportNamedDeclaration set_addSpecifiers [OF specs, of acc]
      by simp
  next
    case (Some d)
    have hd: "handledDeclaration d" using assms ExportNamedDeclaration Some by simp
    show ?thesis
    proof (cases d)
      case (FunctionDeclaration name)
      then show ?thesis
        using ExportNamedDeclaration Some set_addSpecifiers [OF specs]
        by (cases name) (auto simp: set_setAdd)
    next
      case (VariableDeclaration ds)
      then have "list_all handledDeclarator ds" using hd by simp
      from set_addDeclarators [OF this, of acc] show ?thesis
        using ExportNamedDeclaration Some VariableDeclaration set_addSpecifiers [OF specs]
        by auto
    next
      case (ClassDeclaration name)
      then show ?thesis using hd by simp
    next
      case (OtherDeclaration name)
      then show ?thesis using hd by simp
    qed
  qed
next
  case ExportDefaultDeclaration
  then show ?thesis by (simp add: set_setAdd)
next
  case (ExportAllDeclaration source)
  then show ?thesis using assms by simp
next
  case (TSModuleDeclaration isExported name body)
  then show ?thesis using assms by simp
next
  case OtherStatement
  then show ?thesis by simp
qed

lemma set_visitStatements:
  "list_all handledStatement ast \<Longrightarrow>
   set (foldl visitStatement acc ast) = set acc \<union> exportedNames ast"
proof (induction ast arbitrary: acc)
  case Nil
  show ?case by (simp add: exportedNames_def)
next
  case (Cons stmt ast)
  have h: "handledStatement stmt" and rest: "list_all handledStatement ast"
    using Cons.prems by simp_all
  from Cons.IH [OF rest, of "visitStatement acc stmt"] set_visitStatement [OF h, of acc]
  show ?case by (auto simp: exportedNames_def)
qed

lemma extractExports_handled:
  "list_all handledStatement ast \<Longrightarrow> set (extractExports (Some ast)) = exportedNames ast"
  using set_visitStatements [of ast "[]"] by (simp add: extractExports_def)

lemma buildStub_fields:
  "sm_namedExports (buildStub c exports)
     = map replaceDashes (filter (\<lambda>n. n \<noteq> ''default'') exports) \<and>
   (sm_defaultExport (buildStub c exports) = None \<longleftrightarrow> ''default'' \<notin> set exports)"
proof (induction exports rule: rev_induct)
  case Nil
  show ?case by (simp add: buildStub_def)
next
  case (snoc x exports)
  have "buildStub c (exports @ [x]) = stubStep c (buildStub c exports) x"
    by (simp add: buildStub_def)
  then show ?case using snoc.IH by (auto simp: stubStep_def)
qed

lemma stubAst_exports:
  "exportedNames (stubAst stub) =
     set (sm_namedExports stub)
     \<union> (case sm_defaultExport stub of None \<Rightarrow> {} | Some c \<Rightarrow> {''default''})"
proof -
  have others: "concat (map statementExports (map (\<lambda>c. OtherStatement) xs)) = []"
    for xs :: "(string \<times> string) list"
    by (induction xs) auto
  have names: "map specifierName (map (\<lambda>n. ExportSpecifier n (ExportedIdentifier n)) ns) = ns"
    for ns
    by (induction ns) auto
  show ?thesis
    unfolding exportedNames_def stubAst_def
    by (cases "sm_defaultExport stub") (auto simp: others names)
qed

lemma stub_exports:
  "exportedNames (stubAst (buildStub c exports)) =
     replaceDashes ` (set exports - {''default''})
     \<union> (if ''default'' \<in> set exports then {''default''} else {})"
proof -
  let ?stub = "buildStub c exports"
  have n: "sm_namedExports ?stub = map replaceDashes (filter (\<lambda>n. n \<noteq> ''default'') exports)"
    and d: "sm_defaultExport ?stub = None \<longleftrightarrow> ''default'' \<notin> set exports"
    using buildStub_fields [of c exports] by simp_all
  show ?thesis
    unfolding stubAst_exports n using d
    by (cases "sm_defaultExport ?stub") auto
qed

lemma replaceDashes_id: "CHR ''-'' \<notin> set name \<Longrightarrow> replaceDashes name = name"
  by (induction name) (auto simp: replaceDashes_def)

text \<open>For a module that parses and whose statements all have the shapes that are read, with
  no dash in an exported name, the stub exports exactly the names of the original.\<close>

lemma stub_preserves_handled_exports:
  assumes "list_all handledStatement ast"
    and "\<forall>name \<in> exportedNames ast. CHR ''-'' \<notin> set name"
  shows "exportedNames (stubAst (buildStub componentName (extractExports (Some ast))))
         = exportedNames ast"
proof -
  have e: "set (extractExports (Some ast)) = exportedNames ast"
    using extractExports_handled [OF assms(1)] .
  have "replaceDashes ` (exportedNames ast - {''default''}) = exportedNames ast - {''default''}"
    using assms(2) by (auto simp: replaceDashes_id image_iff)
  then show ?thesis unfolding stub_exports e by auto
qed

text \<open>The traversal also reads the exports inside a namespace block, which are not
  exports of the module, and not the name of the exported namespace, which is: for
  \<^verbatim>\<open>export namespace NS { export const inner = 1; export function innerFn() {}
  export namespace Deep { export const deep = 2 } }\<close> it records \<^verbatim>\<open>inner\<close>, \<^verbatim>\<open>innerFn\<close> and
  \<^verbatim>\<open>deep\<close>, and the module exports \<^verbatim>\<open>NS\<close>.\<close>

lemma nested_exports_are_read:
  "extractExports (Some
     [TSModuleDeclaration True ''NS''
        [ExportNamedDeclaration (Some (VariableDeclaration [Identifier ''inner''])) [],
         ExportNamedDeclaration (Some (FunctionDeclaration (Some ''innerFn''))) [],
         TSModuleDeclaration True ''Deep''
           [ExportNamedDeclaration (Some (VariableDeclaration [Identifier ''deep''])) []]]])
     = [''inner'', ''innerFn'', ''deep''] \<and>
   exportedNames
     [TSModuleDeclaration True ''NS''
        [ExportNamedDeclaration (Some (VariableDeclaration [Identifier ''inner''])) [],
         ExportNamedDeclaration (Some (FunctionDeclaration (Some ''innerFn''))) [],
         TSModuleDeclaration True ''Deep''
           [ExportNamedDeclaration (Some (VariableDeclaration [Identifier ''deep''])) []]]]
     = {''NS''}"
  by code_simp

section \<open>Stub signature\<close>

text \<open>
  C4. The stub of every removed component exports the names the original exports, for
  every shape of export. \<^verbatim>\<open>extractExports\<close> reads function and variable declarations,
  export specifiers and the default export; an exported class declaration adds nothing.
  \<^verbatim>\<open>Widget.tsx\<close> exports the class \<^verbatim>\<open>Widget\<close>; its backup is stored, and the stub written in
  its place exports nothing.
\<close>

theorem class_export_is_dropped_by_stub:
  "exampleParse widgetSource
     = Some [OtherStatement, ExportNamedDeclaration (Some (ClassDeclaration ''Widget'')) []] \<and>
   exportedNames [OtherStatement, ExportNamedDeclaration (Some (ClassDeclaration ''Widget'')) []]
     = {''Widget''} \<and>
   (case nuclearElimination exampleNuclearConfig exampleParse exampleComponentFiles
           exampleNuclearState of
      Inl msg \<Rightarrow> False
    | Inr st \<Rightarrow>
        map_of (deletedComponents st) ''Widget'' = Some (SourceText widgetSource) \<and>
        (case liveFiles st (componentAt ''Widget'') of
           Some (StubFile stub) \<Rightarrow> exportedNames (stubAst stub) = {}
         | _ \<Rightarrow> False))"
  by code_simp

end
